theory Spec2Isabelle
  imports Complex_Main
begin

section \<open>OctoPulse: Conway's Game of Life on a toroidal grid (src/Script.ts)\<close>

text \<open>
  The script keeps its state in module-level variables (\<open>cols\<close>, \<open>rows\<close>, \<open>grid\<close>,
  \<open>isPlaying\<close>, \<open>speed\<close>, \<open>lastUpdate\<close>) and every function reads and writes them.
  Here they are the fields of one record that each function takes and returns.
  A JavaScript exception is the value \<open>Inl TypeError\<close>; a normal return is \<open>Inr\<close>.
  Drawing and the registration of callbacks touch the page only and are left out.
\<close>

subsection \<open>JavaScript values and array access\<close>

datatype error = TypeError

text \<open>What a read of an array element can give: a number, or \<open>undefined\<close> when the index
  names no element.\<close>

datatype jsval = Num int | Undefined

type_synonym Grid = "jsval list list"

record state =
  cols :: nat
  rows :: nat
  grid :: Grid
  isPlaying :: bool
  speed :: int
  lastUpdate :: real

text \<open>\<open>a % b\<close> on integers: the remainder has the sign of the dividend, and \<open>a % 0\<close> is
  \<open>NaN\<close>, written \<open>None\<close>.\<close>

definition jsRem :: "int \<Rightarrow> int \<Rightarrow> int option" where
  "jsRem a b = (if b = 0 then None else Some (sgn a * (\<bar>a\<bar> mod \<bar>b\<bar>)))"

text \<open>\<open>g[k]\<close> for the outer array: \<open>undefined\<close> (\<open>None\<close>) unless \<open>k\<close> is an index of \<open>g\<close>.\<close>

definition rowAt :: "Grid \<Rightarrow> int option \<Rightarrow> jsval list option" where
  "rowAt g k =
     (case k of
        None \<Rightarrow> None
      | Some n \<Rightarrow> if 0 \<le> n \<and> n < int (length g) then Some (g ! nat n) else None)"

text \<open>\<open>r[k]\<close> for a row.\<close>

definition cellAt :: "jsval list \<Rightarrow> int option \<Rightarrow> jsval" where
  "cellAt r k =
     (case k of
        None \<Rightarrow> Undefined
      | Some n \<Rightarrow> if 0 \<le> n \<and> n < int (length r) then r ! nat n else Undefined)"

text \<open>\<open>g[a][b]\<close>: reading a property of \<open>undefined\<close> throws.\<close>

definition readCell :: "Grid \<Rightarrow> int option \<Rightarrow> int option \<Rightarrow> error + jsval" where
  "readCell g a b =
     (case rowAt g a of
        None \<Rightarrow> Inl TypeError
      | Some r \<Rightarrow> Inr (cellAt r b))"

text \<open>\<open>v > 0\<close>: \<open>undefined\<close> converts to \<open>NaN\<close>, and every comparison with \<open>NaN\<close> is false.\<close>

definition gtZero :: "jsval \<Rightarrow> bool" where
  "gtZero v = (case v of Num n \<Rightarrow> 0 < n | Undefined \<Rightarrow> False)"

text \<open>\<open>r[j] = v\<close>: a write past the end extends the array; the skipped positions read as
  \<open>undefined\<close>.\<close>

definition setIdx :: "jsval list \<Rightarrow> nat \<Rightarrow> jsval \<Rightarrow> jsval list" where
  "setIdx r j v =
     (if j < length r then r[j := v]
      else r @ replicate (j - length r) Undefined @ [v])"

text \<open>\<open>g[i][j] = v\<close>: setting a property of \<open>undefined\<close> throws.\<close>

definition writeCell :: "Grid \<Rightarrow> nat \<Rightarrow> nat \<Rightarrow> jsval \<Rightarrow> error + Grid" where
  "writeCell g i j v =
     (if i < length g then Inr (g[i := setIdx (g ! i) j v]) else Inl TypeError)"

text \<open>A \<open>for\<close> loop over the listed index values, threading what the body updates; an
  exception in the body leaves the loop.\<close>

fun forEach :: "'i list \<Rightarrow> ('i \<Rightarrow> 'a \<Rightarrow> error + 'a) \<Rightarrow> 'a \<Rightarrow> error + 'a" where
  "forEach [] body a = Inr a"
| "forEach (i # is) body a =
     (case body i a of
        Inl e \<Rightarrow> Inl e
      | Inr a' \<Rightarrow> forEach is body a')"

subsection \<open>Grid management\<close>

text \<open>\<open>Array(rows).fill(null).map(() => Array(cols).fill(0))\<close>: every row is a new array,
  so no two rows share cells and lists of lists describe the result.\<close>

definition createEmptyGrid :: "state \<Rightarrow> Grid" where
  "createEmptyGrid s = replicate (rows s) (replicate (cols s) (Num 0))"

text \<open>The body of the inner loop of \<open>countNeighbors\<close> for the offset \<open>(i, j)\<close>.\<close>

definition neighborStep :: "state \<Rightarrow> int \<Rightarrow> int \<Rightarrow> int \<Rightarrow> int \<Rightarrow> int \<Rightarrow> error + int" where
  "neighborStep s row col i j count =
     (if i = 0 \<and> j = 0 then Inr count
      else
        let neighborRow = jsRem (row + i + int (rows s)) (int (rows s));
            neighborCol = jsRem (col + j + int (cols s)) (int (cols s))
        in case readCell (grid s) neighborRow neighborCol of
             Inl e \<Rightarrow> Inl e
           | Inr v \<Rightarrow> Inr (if gtZero v then count + 1 else count))"

definition countNeighbors :: "state \<Rightarrow> int \<Rightarrow> int \<Rightarrow> error + int" where
  "countNeighbors s row col =
     forEach [-1, 0, 1] (\<lambda>i. forEach [-1, 0, 1] (\<lambda>j. neighborStep s row col i j)) 0"

text \<open>The body of the inner loop of \<open>computeNextGeneration\<close> for the cell \<open>(i, j)\<close>. The
  neighbour count is the argument \<open>cn\<close>, which \<open>computeNextGeneration\<close> below fixes to
  \<open>countNeighbors\<close>; it is an argument so that one can say when the loop does not call it.\<close>

definition cellStep ::
  "(state \<Rightarrow> int \<Rightarrow> int \<Rightarrow> error + int) \<Rightarrow> state \<Rightarrow> nat \<Rightarrow> nat \<Rightarrow> Grid \<Rightarrow> error + Grid" where
  "cellStep cn s i j newGrid =
     (case cn s (int i) (int j) of
        Inl e \<Rightarrow> Inl e
      | Inr neighbors \<Rightarrow>
          (case readCell (grid s) (Some (int i)) (Some (int j)) of
             Inl e \<Rightarrow> Inl e
           | Inr v \<Rightarrow>
               let isAlive = gtZero v
               in if isAlive \<and> (neighbors = 2 \<or> neighbors = 3)
                  then writeCell newGrid i j (Num neighbors)
                  else if \<not> isAlive \<and> neighbors = 3
                  then writeCell newGrid i j (Num neighbors)
                  else Inr newGrid))"

definition computeNextGenerationWith ::
  "(state \<Rightarrow> int \<Rightarrow> int \<Rightarrow> error + int) \<Rightarrow> state \<Rightarrow> error + state" where
  "computeNextGenerationWith cn s =
     (case forEach [0..<rows s] (\<lambda>i. forEach [0..<cols s] (\<lambda>j. cellStep cn s i j))
             (createEmptyGrid s) of
        Inl e \<Rightarrow> Inl e
      | Inr newGrid \<Rightarrow> Inr (s\<lparr>grid := newGrid\<rparr>))"

definition computeNextGeneration :: "state \<Rightarrow> error + state" where
  "computeNextGeneration s = computeNextGenerationWith countNeighbors s"

definition RANDOM_DENSITY :: real where
  "RANDOM_DENSITY = 3 / 10"

text \<open>\<open>Math.random()\<close> is a source of numbers in \<open>[0, 1)\<close>. It is the sequence \<open>rnd\<close> of the
  values that successive calls return; the loops thread the number \<open>k\<close> of calls made so far.\<close>

definition randomStep :: "(nat \<Rightarrow> real) \<Rightarrow> nat \<Rightarrow> nat \<Rightarrow> Grid \<times> nat \<Rightarrow> error + Grid \<times> nat" where
  "randomStep rnd i j a =
     (case a of (g, k) \<Rightarrow>
        (case writeCell g i j (Num (if rnd k > 1 - RANDOM_DENSITY then 3 else 0)) of
           Inl e \<Rightarrow> Inl e
         | Inr g' \<Rightarrow> Inr (g', Suc k)))"

definition randomizeGrid :: "(nat \<Rightarrow> real) \<Rightarrow> state \<Rightarrow> error + state" where
  "randomizeGrid rnd s =
     (case forEach [0..<rows s] (\<lambda>i. forEach [0..<cols s] (\<lambda>j. randomStep rnd i j))
             (createEmptyGrid s, 0) of
        Inl e \<Rightarrow> Inl e
      | Inr (g, k) \<Rightarrow> Inr (s\<lparr>grid := g\<rparr>))"

definition toggleCell :: "state \<Rightarrow> int \<Rightarrow> int \<Rightarrow> error + state" where
  "toggleCell s row col =
     (if row \<ge> 0 \<and> row < int (rows s) \<and> col \<ge> 0 \<and> col < int (cols s) then
        (case readCell (grid s) (Some row) (Some col) of
           Inl e \<Rightarrow> Inl e
         | Inr v \<Rightarrow>
             (case writeCell (grid s) (nat row) (nat col) (Num (if gtZero v then 0 else 3)) of
                Inl e \<Rightarrow> Inl e
              | Inr g \<Rightarrow> Inr (s\<lparr>grid := g\<rparr>)))
      else Inr s)"

subsection \<open>Resizing\<close>

text \<open>\<open>resizeCanvas\<close> reads the new extents from the window; here they are the arguments
  \<open>newCols\<close> and \<open>newRows\<close> (\<open>Math.floor\<close> of a canvas extent over the cell size, so natural
  numbers).\<close>

definition copyStep :: "Grid \<Rightarrow> nat \<Rightarrow> nat \<Rightarrow> Grid \<Rightarrow> error + Grid" where
  "copyStep oldGrid i j g =
     (case readCell oldGrid (Some (int i)) (Some (int j)) of
        Inl e \<Rightarrow> Inl e
      | Inr v \<Rightarrow> writeCell g i j v)"

definition resizeCanvas :: "state \<Rightarrow> nat \<Rightarrow> nat \<Rightarrow> error + state" where
  "resizeCanvas s newCols newRows =
     (let oldGrid = grid s;
          s1 = s\<lparr>cols := newCols, rows := newRows\<rparr>;
          g0 = createEmptyGrid s1
      in case (if length oldGrid > 0 then
                 forEach [0..<min (rows s1) (length oldGrid)]
                   (\<lambda>i. forEach [0..<min (cols s1) (length (oldGrid ! 0))]
                      (\<lambda>j. copyStep oldGrid i j)) g0
               else Inr g0) of
           Inl e \<Rightarrow> Inl e
         | Inr g \<Rightarrow> Inr (s1\<lparr>grid := g\<rparr>))"

subsection \<open>Numbers of the animation loop\<close>

text \<open>
  The time stamps and \<open>1000 / speed\<close> are IEEE 754 binary64 numbers. A finite one is given by
  the real number it stands for, so \<open>lastUpdate\<close> and \<open>timestamp\<close> are reals; the result of an
  operation is the exact result rounded to the nearest binary64 number, ties to the even
  significand, or an infinity when the rounded magnitude reaches \<open>2 ^ 1024\<close>. \<open>NaN\<close> does not
  arise: both operands of the subtraction are finite and \<open>speed\<close> is an integer.
\<close>

datatype jsnum = Finite real | PlusInfinity | MinusInfinity

definition pow2 :: "int \<Rightarrow> real" where
  "pow2 k = (if 0 \<le> k then 2 ^ nat k else 1 / 2 ^ nat (- k))"

text \<open>For \<open>a > 0\<close>, the binary exponent of \<open>a\<close>: the \<open>e\<close> with \<open>2 ^ e \<le> a < 2 ^ (e + 1)\<close>, kept
  between \<open>-1022\<close> (below it the numbers are subnormal and share that exponent) and \<open>1024\<close>.\<close>

fun halvings :: "nat \<Rightarrow> real \<Rightarrow> int" where
  "halvings 0 x = 0"
| "halvings (Suc n) x = (if x < 2 then 0 else 1 + halvings n (x / 2))"

fun doublings :: "nat \<Rightarrow> real \<Rightarrow> int" where
  "doublings 0 x = 0"
| "doublings (Suc n) x = (if 1 \<le> x then 0 else 1 + doublings n (2 * x))"

definition exponent :: "real \<Rightarrow> int" where
  "exponent a = (if 1 \<le> a then halvings 1024 a else - doublings 1022 a)"

text \<open>The nearest integer, a tie going to the even one.\<close>

definition roundEven :: "real \<Rightarrow> int" where
  "roundEven q =
     (let f = \<lfloor>q\<rfloor>; d = q - real_of_int f
      in if d < 1 / 2 then f else if 1 / 2 < d then f + 1 else if even f then f else f + 1)"

text \<open>Rounding to binary64: the significand has 53 bits, so the spacing of the numbers around
  \<open>a\<close> is \<open>2 ^ (exponent a - 52)\<close>.\<close>

definition round64 :: "real \<Rightarrow> jsnum" where
  "round64 x =
     (if x = 0 then Finite 0
      else
        let a = \<bar>x\<bar>;
            u = pow2 (exponent a - 52);
            r = real_of_int (roundEven (a / u)) * u
        in if pow2 1024 \<le> r then (if 0 < x then PlusInfinity else MinusInfinity)
           else Finite (if 0 < x then r else - r))"

text \<open>\<open>x - y\<close> on finite numbers.\<close>

definition jsSub :: "real \<Rightarrow> real \<Rightarrow> jsnum" where
  "jsSub x y = round64 (x - y)"

text \<open>\<open>a >= b\<close>.\<close>

fun jsGe :: "jsnum \<Rightarrow> jsnum \<Rightarrow> bool" where
  "jsGe (Finite x) (Finite y) = (y \<le> x)"
| "jsGe (Finite x) PlusInfinity = False"
| "jsGe (Finite x) MinusInfinity = True"
| "jsGe PlusInfinity b = True"
| "jsGe MinusInfinity (Finite y) = False"
| "jsGe MinusInfinity PlusInfinity = False"
| "jsGe MinusInfinity MinusInfinity = True"

subsection \<open>Animation loop and handlers\<close>

text \<open>\<open>const interval = 1000 / speed\<close>, where \<open>speed\<close> holds the integer that \<open>parseInt\<close> gave or
  the default 2; dividing by 0 gives \<open>Infinity\<close>.\<close>

definition interval :: "state \<Rightarrow> jsnum" where
  "interval s = (if speed s = 0 then PlusInfinity else round64 (1000 / real_of_int (speed s)))"

definition animate :: "state \<Rightarrow> real \<Rightarrow> error + state" where
  "animate s timestamp =
     (if isPlaying s then
        (if jsGe (jsSub timestamp (lastUpdate s)) (interval s) then
           (case computeNextGeneration s of
              Inl e \<Rightarrow> Inl e
            | Inr s' \<Rightarrow> Inr (s'\<lparr>lastUpdate := timestamp\<rparr>))
         else Inr s)
      else Inr s)"

definition handleClear :: "state \<Rightarrow> state" where
  "handleClear s = s\<lparr>grid := createEmptyGrid s\<rparr>"

text \<open>The values the script gives its variables before the first \<open>resizeCanvas\<close>.\<close>

definition initialState :: state where
  "initialState = \<lparr>cols = 0, rows = 0, grid = [], isPlaying = False, speed = 2, lastUpdate = 0\<rparr>"

subsection \<open>Vocabulary of the properties\<close>

text \<open>A state whose grid is \<open>rows \<times> cols\<close> and holds numbers that are not negative: the grid
  of the data model.\<close>

definition isCount :: "jsval \<Rightarrow> bool" where
  "isCount v = (case v of Num n \<Rightarrow> 0 \<le> n | Undefined \<Rightarrow> False)"

definition wf_state :: "state \<Rightarrow> bool" where
  "wf_state s \<longleftrightarrow>
     length (grid s) = rows s \<and>
     list_all (\<lambda>r. length r = cols s \<and> list_all isCount r) (grid s)"

subsection \<open>Loop invariant of the loops that fill a grid\<close>

text \<open>While a nested loop over rows \<open>< m\<close> and columns \<open>< n\<close> fills an \<open>R \<times> C\<close> grid in
  row-major order and stands before cell \<open>(i, j)\<close>, the cells it has passed hold \<open>v x y\<close> and
  all the others still hold \<open>init\<close>.\<close>

definition fillInv :: "nat \<Rightarrow> nat \<Rightarrow> nat \<Rightarrow> (nat \<Rightarrow> nat \<Rightarrow> jsval) \<Rightarrow> jsval \<Rightarrow> nat \<Rightarrow> nat \<Rightarrow> Grid \<Rightarrow> bool" where
  "fillInv R C n v init i j g \<longleftrightarrow>
     length g = R \<and>
     (\<forall>x<R. length (g ! x) = C \<and>
        (\<forall>y<C. g ! x ! y = (if (x < i \<and> y < n) \<or> (x = i \<and> y < j) then v x y else init)))"

subsection \<open>Neighbourhood, as the specification words it\<close>

text \<open>The eight offsets of the Moore neighbourhood: \<open>{-1, 0, 1}\<^sup>2\<close> without \<open>(0, 0)\<close>.\<close>

definition mooreOffsets :: "(int \<times> int) list" where
  "mooreOffsets = [(-1, -1), (-1, 0), (-1, 1), (0, -1), (0, 1), (1, -1), (1, 0), (1, 1)]"

text \<open>A cell is alive when its value is positive.\<close>

definition liveAt :: "state \<Rightarrow> int \<Rightarrow> int \<Rightarrow> bool" where
  "liveAt s r c = gtZero (grid s ! nat r ! nat c)"

text \<open>The neighbour index in one axis: \<open>(index + offset + extent) mod extent\<close>.\<close>

definition wrapIdx :: "int \<Rightarrow> int \<Rightarrow> int \<Rightarrow> int" where
  "wrapIdx extent index offset = (index + offset + extent) mod extent"

text \<open>The eight neighbour positions of \<open>(row, col)\<close>, one per offset, so a position that
  several offsets wrap to is listed once for each of them.\<close>

definition neighborCells :: "state \<Rightarrow> int \<Rightarrow> int \<Rightarrow> (int \<times> int) list" where
  "neighborCells s row col =
     map (\<lambda>(i, j). (wrapIdx (int (rows s)) row i, wrapIdx (int (cols s)) col j)) mooreOffsets"

text \<open>The number of offsets whose wrapped position holds a live cell.\<close>

definition neighborCountSpec :: "state \<Rightarrow> int \<Rightarrow> int \<Rightarrow> int" where
  "neighborCountSpec s row col =
     int (length (filter (\<lambda>(r, c). liveAt s r c) (neighborCells s row col)))"

subsection \<open>The generation rule, as the specification words it\<close>

text \<open>The number stored in a cell.\<close>

definition cellValue :: "state \<Rightarrow> nat \<Rightarrow> nat \<Rightarrow> int" where
  "cellValue s i j = (case grid s ! i ! j of Num n \<Rightarrow> n | Undefined \<Rightarrow> 0)"

text \<open>The new value of a cell with value \<open>v\<close> and \<open>n\<close> live neighbours: a live cell with 2 or 3
  neighbours keeps living and stores the count, a dead cell with exactly 3 is born and stores 3,
  every other cell is dead.\<close>

definition lifeRule :: "int \<Rightarrow> int \<Rightarrow> int" where
  "lifeRule v n =
     (if 0 < v \<and> (n = 2 \<or> n = 3) then n
      else if v = 0 \<and> n = 3 then 3
      else 0)"

text \<open>The grid in which every cell is \<open>lifeRule\<close> of the old cell and of the old neighbour count.\<close>

definition nextGrid :: "state \<Rightarrow> Grid" where
  "nextGrid s =
     map (\<lambda>i. map (\<lambda>j. Num (lifeRule (cellValue s i j) (neighborCountSpec s (int i) (int j))))
                [0..<cols s]) [0..<rows s]"

subsection \<open>Randomized cells\<close>

text \<open>What \<open>randomizeGrid\<close> stores in cell \<open>(i, j)\<close> of a grid with \<open>C\<close> columns: the decision
  uses draw number \<open>i * C + j\<close>.\<close>

definition randomCell :: "(nat \<Rightarrow> real) \<Rightarrow> nat \<Rightarrow> nat \<Rightarrow> nat \<Rightarrow> jsval" where
  "randomCell rnd C i j = Num (if rnd (i * C + j) > 1 - RANDOM_DENSITY then 3 else 0)"

subsection \<open>Sequences of operations\<close>

text \<open>The operations that change the grid: one generation, a click on a cell, the random button with
  the draws it will see, the clear button, and a resize to new extents.\<close>

datatype op = Step | Toggle int int | Randomize "nat \<Rightarrow> real" | Clear | Resize nat nat

fun applyOp :: "state \<Rightarrow> op \<Rightarrow> error + state" where
  "applyOp s Step = computeNextGeneration s"
| "applyOp s (Toggle row col) = toggleCell s row col"
| "applyOp s (Randomize rnd) = randomizeGrid rnd s"
| "applyOp s Clear = Inr (handleClear s)"
| "applyOp s (Resize newCols newRows) = resizeCanvas s newCols newRows"

fun run :: "state \<Rightarrow> op list \<Rightarrow> error + state" where
  "run s [] = Inr s"
| "run s (x # xs) = (case applyOp s x of Inl e \<Rightarrow> Inl e | Inr s' \<Rightarrow> run s' xs)"

text \<open>The values a cell of a reachable grid can hold.\<close>

definition cellOK :: "jsval \<Rightarrow> bool" where
  "cellOK v \<longleftrightarrow> v = Num 0 \<or> v = Num 2 \<or> v = Num 3"

definition gridInv :: "state \<Rightarrow> bool" where
  "gridInv s \<longleftrightarrow>
     length (grid s) = rows s \<and>
     list_all (\<lambda>r. length r = cols s \<and> list_all cellOK r) (grid s)"

subsection \<open>The blinker\<close>

text \<open>The \<open>R \<times> C\<close> grid whose cell \<open>(i, j)\<close> holds \<open>f i j\<close>.\<close>

definition patternGrid :: "nat \<Rightarrow> nat \<Rightarrow> (nat \<Rightarrow> nat \<Rightarrow> int) \<Rightarrow> Grid" where
  "patternGrid R C f = map (\<lambda>i. map (\<lambda>j. Num (f i j)) [0..<C]) [0..<R]"

text \<open>Three cells in row \<open>r\<close> around column \<open>c\<close> of a grid with \<open>C\<close> columns, holding \<open>a\<close>, \<open>b\<close>,
  \<open>d\<close> from left to right, and three cells in column \<open>c\<close> around row \<open>r\<close> of a grid with \<open>R\<close>
  rows, from top to bottom. The neighbours of the centre are taken on the torus, so the three
  cells may lie across an edge. Every other cell holds 0.\<close>

definition horizontal :: "nat \<Rightarrow> nat \<Rightarrow> nat \<Rightarrow> int \<Rightarrow> int \<Rightarrow> int \<Rightarrow> nat \<Rightarrow> nat \<Rightarrow> int" where
  "horizontal C r c a b d i j =
     (if i = r then
        (if j = (c + C - 1) mod C then a else if j = c then b
         else if j = (c + 1) mod C then d else 0)
      else 0)"

definition vertical :: "nat \<Rightarrow> nat \<Rightarrow> nat \<Rightarrow> int \<Rightarrow> int \<Rightarrow> int \<Rightarrow> nat \<Rightarrow> nat \<Rightarrow> int" where
  "vertical R r c a b d i j =
     (if j = c then
        (if i = (r + R - 1) mod R then a else if i = r then b
         else if i = (r + 1) mod R then d else 0)
      else 0)"

text \<open>On a ring of \<open>N\<close> positions, \<open>x\<close> is \<open>p\<close> or one of its two neighbours.\<close>

definition near :: "int \<Rightarrow> int \<Rightarrow> int \<Rightarrow> bool" where
  "near N x p \<longleftrightarrow> x = wrapIdx N p (-1) \<or> x = p \<or> x = wrapIdx N p 1"

text \<open>Two calls of \<open>computeNextGeneration\<close> in a row.\<close>

definition twoGenerations :: "state \<Rightarrow> error + state" where
  "twoGenerations s =
     (case computeNextGeneration s of Inl e \<Rightarrow> Inl e | Inr s1 \<Rightarrow> computeNextGeneration s1)"

subsection \<open>States used as examples\<close>

definition demoState :: state where
  "demoState = \<lparr>cols = 3, rows = 2, grid = [[Num 0, Num 3, Num 0], [Num 2, Num 0, Num 0]],
                isPlaying = True, speed = 2, lastUpdate = 0\<rparr>"

definition unitState :: state where
  "unitState = \<lparr>cols = 1, rows = 1, grid = [[Num 3]], isPlaying = False, speed = 2, lastUpdate = 0\<rparr>"

definition blinkerState :: state where
  "blinkerState =
     \<lparr>cols = 5, rows = 5,
      grid = [[Num 0, Num 0, Num 0, Num 0, Num 0],
              [Num 0, Num 0, Num 0, Num 0, Num 0],
              [Num 0, Num 3, Num 3, Num 3, Num 0],
              [Num 0, Num 0, Num 0, Num 0, Num 0],
              [Num 0, Num 0, Num 0, Num 0, Num 0]],
      isPlaying = True, speed = 2, lastUpdate = 0\<rparr>"

definition emptyColsState :: state where
  "emptyColsState = \<lparr>cols = 0, rows = 2, grid = [[], []], isPlaying = True, speed = 2, lastUpdate = 0\<rparr>"

text \<open>The blinker with \<open>lastUpdate\<close> the binary64 number nearest to 0.2, and the blinker at
  speed 3.\<close>

definition lateState :: state where
  "lateState = blinkerState\<lparr>lastUpdate := 3602879701896397 / 2 ^ 54\<rparr>"

definition fastState :: state where
  "fastState = blinkerState\<lparr>speed := 3\<rparr>"

text \<open>A row of three in the top row, and one across the seam between the last and the first
  column, both holding 3, 2, 3.\<close>

definition edgeState :: state where
  "edgeState =
     \<lparr>cols = 5, rows = 5,
      grid = [[Num 0, Num 3, Num 2, Num 3, Num 0],
              [Num 0, Num 0, Num 0, Num 0, Num 0],
              [Num 0, Num 0, Num 0, Num 0, Num 0],
              [Num 0, Num 0, Num 0, Num 0, Num 0],
              [Num 0, Num 0, Num 0, Num 0, Num 0]],
      isPlaying = True, speed = 2, lastUpdate = 0\<rparr>"

definition seamState :: state where
  "seamState =
     \<lparr>cols = 5, rows = 5,
      grid = [[Num 0, Num 0, Num 0, Num 0, Num 0],
              [Num 0, Num 0, Num 0, Num 0, Num 0],
              [Num 2, Num 3, Num 0, Num 0, Num 3],
              [Num 0, Num 0, Num 0, Num 0, Num 0],
              [Num 0, Num 0, Num 0, Num 0, Num 0]],
      isPlaying = True, speed = 2, lastUpdate = 0\<rparr>"

section \<open>Properties\<close>

subsection \<open>Array access on well-formed states\<close>

lemma wf_state_nth:
  "wf_state s \<longleftrightarrow>
     length (grid s) = rows s \<and>
     (\<forall>i<rows s. length (grid s ! i) = cols s \<and> (\<forall>j<cols s. isCount (grid s ! i ! j)))"
  by (auto simp: wf_state_def list_all_length)

lemma isCount_Num: "isCount v \<longleftrightarrow> (\<exists>n\<ge>0. v = Num n)"
  by (cases v) (auto simp: isCount_def)

lemma wf_cell:
  "wf_state s \<Longrightarrow> i < rows s \<Longrightarrow> j < cols s \<Longrightarrow> \<exists>n\<ge>0. grid s ! i ! j = Num n"
  by (auto simp: wf_state_nth isCount_Num)

lemma readCell_in_range:
  "i < length g \<Longrightarrow> j < length (g ! i) \<Longrightarrow> readCell g (Some (int i)) (Some (int j)) = Inr (g ! i ! j)"
  by (simp add: readCell_def rowAt_def cellAt_def)

lemma writeCell_in_range:
  "i < length g \<Longrightarrow> j < length (g ! i) \<Longrightarrow> writeCell g i j v = Inr (g[i := (g ! i)[j := v]])"
  by (simp add: writeCell_def setIdx_def)

subsection \<open>Toggling a cell\<close>

lemma toggleCell_outside:
  "row < 0 \<or> row \<ge> int (rows s) \<or> col < 0 \<or> col \<ge> int (cols s) \<Longrightarrow> toggleCell s row col = Inr s"
  by (auto simp: toggleCell_def)

lemma toggleCell_inside:
  assumes wf: "wf_state s" and r: "0 \<le> row" "row < int (rows s)" and c: "0 \<le> col" "col < int (cols s)"
  shows "toggleCell s row col =
           Inr (s\<lparr>grid := (grid s)[nat row := (grid s ! nat row)
                   [nat col := Num (if gtZero (grid s ! nat row ! nat col) then 0 else 3)]]\<rparr>)"
proof -
  from wf r c have len: "nat row < length (grid s)" "nat col < length (grid s ! nat row)"
    by (auto simp: wf_state_nth)
  from r c have "readCell (grid s) (Some row) (Some col) = Inr (grid s ! nat row ! nat col)"
    using readCell_in_range [OF len] by simp
  then show ?thesis
    using r c writeCell_in_range [OF len] by (simp add: toggleCell_def)
qed

text \<open>Claim C4. For every state and every \<open>(row, col)\<close> outside \<open>[0, rows) \<times> [0, cols)\<close>,
  \<open>toggleCell\<close> returns the state unchanged and raises nothing. For a coordinate inside, on a
  \<open>rows \<times> cols\<close> grid of non-negative numbers, it writes 3 over a 0 and 0 over a positive value, in
  that cell only.\<close>

theorem toggleCell_spec:
  "(row < 0 \<or> row \<ge> int (rows s) \<or> col < 0 \<or> col \<ge> int (cols s) \<longrightarrow> toggleCell s row col = Inr s) \<and>
   (wf_state s \<and> 0 \<le> row \<and> row < int (rows s) \<and> 0 \<le> col \<and> col < int (cols s) \<longrightarrow>
      (\<exists>v w. grid s ! nat row ! nat col = Num v \<and>
             (v = 0 \<longrightarrow> w = 3) \<and> (0 < v \<longrightarrow> w = 0) \<and>
             toggleCell s row col =
               Inr (s\<lparr>grid := (grid s)[nat row := (grid s ! nat row)[nat col := Num w]]\<rparr>)))"
proof (intro conjI impI)
  assume "row < 0 \<or> row \<ge> int (rows s) \<or> col < 0 \<or> col \<ge> int (cols s)"
  then show "toggleCell s row col = Inr s" by (rule toggleCell_outside)
next
  assume a: "wf_state s \<and> 0 \<le> row \<and> row < int (rows s) \<and> 0 \<le> col \<and> col < int (cols s)"
  then have "nat row < rows s" "nat col < cols s" by auto
  with a obtain v where v: "grid s ! nat row ! nat col = Num v" "0 \<le> v"
    using wf_cell [of s "nat row" "nat col"] by blast
  let ?w = "if 0 < v then 0 else 3 :: int"
  have "toggleCell s row col =
          Inr (s\<lparr>grid := (grid s)[nat row := (grid s ! nat row)[nat col := Num ?w]]\<rparr>)"
    using a v toggleCell_inside [of s row col] by (simp add: gtZero_def)
  with v show "\<exists>v w. grid s ! nat row ! nat col = Num v \<and>
             (v = 0 \<longrightarrow> w = 3) \<and> (0 < v \<longrightarrow> w = 0) \<and>
             toggleCell s row col =
               Inr (s\<lparr>grid := (grid s)[nat row := (grid s ! nat row)[nat col := Num w]]\<rparr>)"
    by (intro exI [of _ v] exI [of _ ?w]) simp
qed

lemma wf_demoState: "wf_state demoState"
  by (simp add: wf_state_def demoState_def isCount_def)

theorem toggleCell_spec_witness:
  "toggleCell demoState 5 1 = Inr demoState \<and>
   toggleCell demoState 0 0 = Inr (demoState\<lparr>grid := [[Num 3, Num 3, Num 0], [Num 2, Num 0, Num 0]]\<rparr>) \<and>
   toggleCell demoState 1 0 = Inr (demoState\<lparr>grid := [[Num 0, Num 3, Num 0], [Num 0, Num 0, Num 0]]\<rparr>)"
  using toggleCell_spec [of 5 demoState 1] toggleCell_spec [of 0 demoState 0]
    toggleCell_spec [of 1 demoState 0] wf_demoState
  by (simp add: demoState_def)

subsection \<open>Loops\<close>

lemma forEach_append:
  "forEach (xs @ ys) f a = (case forEach xs f a of Inl e \<Rightarrow> Inl e | Inr a' \<Rightarrow> forEach ys f a')"
  by (induction xs arbitrary: a) (auto split: sum.splits)

lemma forEach_upt_inv:
  assumes init: "P 0 a"
    and step: "\<And>i a. i < n \<Longrightarrow> P i a \<Longrightarrow> \<exists>a'. f i a = Inr a' \<and> P (Suc i) a'"
  shows "\<exists>a'. forEach [0..<n] f a = Inr a' \<and> P n a'"
proof -
  have "m \<le> n \<Longrightarrow> \<exists>a'. forEach [0..<m] f a = Inr a' \<and> P m a'" for m
  proof (induction m)
    case 0
    with init show ?case by simp
  next
    case (Suc m)
    then obtain a1 where a1: "forEach [0..<m] f a = Inr a1" "P m a1" by auto
    from Suc.prems a1 step [of m a1] obtain a2 where "f m a1 = Inr a2" "P (Suc m) a2" by auto
    with a1 show ?case by (simp add: forEach_append)
  qed
  then show ?thesis by simp
qed

lemma forEach_nested_inv:
  assumes init: "I 0 0 a0"
    and step: "\<And>i j a. i < m \<Longrightarrow> j < n \<Longrightarrow> I i j a \<Longrightarrow> \<exists>a'. body i j a = Inr a' \<and> I i (Suc j) a'"
    and next_row: "\<And>i a. i < m \<Longrightarrow> I i n a \<Longrightarrow> I (Suc i) 0 a"
  shows "\<exists>a'. forEach [0..<m] (\<lambda>i. forEach [0..<n] (body i)) a0 = Inr a' \<and> I m 0 a'"
proof (rule forEach_upt_inv [where P = "\<lambda>i a. I i 0 a"])
  show "I 0 0 a0" by (rule init)
next
  fix i a
  assume i: "i < m" and a: "I i 0 a"
  have "\<exists>a'. forEach [0..<n] (body i) a = Inr a' \<and> I i n a'"
    by (rule forEach_upt_inv [where P = "\<lambda>j a. I i j a"]) (use i a step in auto)
  with i next_row show "\<exists>a'. forEach [0..<n] (body i) a = Inr a' \<and> I (Suc i) 0 a'"
    by blast
qed

lemma fillInv_init: "fillInv R C n v init 0 0 (replicate R (replicate C init))"
  by (simp add: fillInv_def)

lemma fillInv_next_row: "fillInv R C n v init i n g \<Longrightarrow> fillInv R C n v init (Suc i) 0 g"
  by (auto simp: fillInv_def less_Suc_eq)

lemma fillInv_update:
  assumes "fillInv R C n v init i j g" "i < R" "j < n" "n \<le> C"
  shows "fillInv R C n v init i (Suc j) (g[i := (g ! i)[j := v i j]])"
  using assms by (auto simp: fillInv_def nth_list_update less_Suc_eq)

lemma fillInv_final:
  assumes "fillInv R C n v init m 0 g"
  shows "length g = R \<and>
     (\<forall>x<R. length (g ! x) = C \<and> (\<forall>y<C. g ! x ! y = (if x < m \<and> y < n then v x y else init)))"
  using assms by (auto simp: fillInv_def)

lemma fill_loop:
  fixes body :: "nat \<Rightarrow> nat \<Rightarrow> Grid \<Rightarrow> error + Grid"
  assumes mn: "m \<le> R" "n \<le> C"
    and body: "\<And>i j g. i < m \<Longrightarrow> j < n \<Longrightarrow> length g = R \<Longrightarrow> length (g ! i) = C \<Longrightarrow>
                 g ! i ! j = init \<Longrightarrow> body i j g = Inr (g[i := (g ! i)[j := v i j]])"
  shows "\<exists>g. forEach [0..<m] (\<lambda>i. forEach [0..<n] (body i)) (replicate R (replicate C init)) = Inr g \<and>
              length g = R \<and>
              (\<forall>x<R. length (g ! x) = C \<and>
                 (\<forall>y<C. g ! x ! y = (if x < m \<and> y < n then v x y else init)))"
proof -
  have "\<exists>g. forEach [0..<m] (\<lambda>i. forEach [0..<n] (body i)) (replicate R (replicate C init)) = Inr g \<and>
             fillInv R C n v init m 0 g"
  proof (rule forEach_nested_inv [where I = "fillInv R C n v init"])
    show "fillInv R C n v init 0 0 (replicate R (replicate C init))" by (rule fillInv_init)
  next
    fix i j g
    assume i: "i < m" and j: "j < n" and inv: "fillInv R C n v init i j g"
    from inv i j mn have "length g = R" "length (g ! i) = C" "g ! i ! j = init"
      by (auto simp: fillInv_def)
    then have "body i j g = Inr (g[i := (g ! i)[j := v i j]])"
      using body i j by blast
    moreover have "fillInv R C n v init i (Suc j) (g[i := (g ! i)[j := v i j]])"
      using fillInv_update inv i j mn by simp
    ultimately show "\<exists>a'. body i j g = Inr a' \<and> fillInv R C n v init i (Suc j) a'" by blast
  next
    fix i g
    assume "fillInv R C n v init i n g"
    then show "fillInv R C n v init (Suc i) 0 g" by (rule fillInv_next_row)
  qed
  then show ?thesis using fillInv_final by blast
qed

subsection \<open>Counting neighbours\<close>

lemma jsRem_nonneg: "0 \<le> a \<Longrightarrow> 0 < b \<Longrightarrow> jsRem a b = Some (a mod b)"
  by (cases "a = 0") (auto simp: jsRem_def sgn_if)

lemma neighborStep_wf:
  assumes wf: "wf_state s"
    and row: "0 \<le> row" "row < int (rows s)" and col: "0 \<le> col" "col < int (cols s)"
    and i: "-1 \<le> i" and j: "-1 \<le> j"
  shows "neighborStep s row col i j count =
           Inr (count + of_bool (\<not> (i = 0 \<and> j = 0) \<and>
                  liveAt s ((row + i + int (rows s)) mod int (rows s))
                           ((col + j + int (cols s)) mod int (cols s))))"
proof -
  let ?R = "int (rows s)" and ?C = "int (cols s)"
  let ?r = "(row + i + ?R) mod ?R" and ?c = "(col + j + ?C) mod ?C"
  from row i have r: "jsRem (row + i + ?R) ?R = Some ?r" by (intro jsRem_nonneg) auto
  from col j have c: "jsRem (col + j + ?C) ?C = Some ?c" by (intro jsRem_nonneg) auto
  from row have rr: "0 \<le> ?r" "?r < ?R" by auto
  from col have cc: "0 \<le> ?c" "?c < ?C" by auto
  from wf rr cc have len: "nat ?r < length (grid s)" "nat ?c < length (grid s ! nat ?r)"
    by (auto simp: wf_state_nth)
  have "readCell (grid s) (Some ?r) (Some ?c) = Inr (grid s ! nat ?r ! nat ?c)"
    using readCell_in_range [OF len] rr cc by simp
  then show ?thesis
    by (simp add: neighborStep_def r c liveAt_def Let_def)
qed

lemma length_filter_sum: "int (length (filter P xs)) = (\<Sum>x\<leftarrow>xs. of_bool (P x))"
  by (induction xs) auto

lemma countNeighbors_wf:
  assumes wf: "wf_state s"
    and row: "0 \<le> row" "row < int (rows s)" and col: "0 \<le> col" "col < int (cols s)"
  shows "countNeighbors s row col = Inr (neighborCountSpec s row col)"
proof -
  note st = neighborStep_wf [OF wf row col]
  show ?thesis
    unfolding countNeighbors_def neighborCountSpec_def neighborCells_def mooreOffsets_def
      length_filter_sum wrapIdx_def
    by (simp add: st)
qed

lemma neighborCountSpec_bounds: "0 \<le> neighborCountSpec s row col \<and> neighborCountSpec s row col \<le> 8"
proof -
  have "length (filter (\<lambda>(r, c). liveAt s r c) (neighborCells s row col))
          \<le> length (neighborCells s row col)"
    by (rule length_filter_le)
  also have "\<dots> = 8" by (simp add: neighborCells_def mooreOffsets_def)
  finally show ?thesis by (simp add: neighborCountSpec_def)
qed

subsection \<open>One generation\<close>

lemma wf_cellValue:
  "wf_state s \<Longrightarrow> i < rows s \<Longrightarrow> j < cols s \<Longrightarrow>
     grid s ! i ! j = Num (cellValue s i j) \<and> 0 \<le> cellValue s i j"
  using wf_cell [of s i j] by (auto simp: cellValue_def)

lemma cellStep_wf:
  assumes wf: "wf_state s" and i: "i < rows s" and j: "j < cols s"
    and g: "length g = rows s" "length (g ! i) = cols s" "g ! i ! j = Num 0"
  shows "cellStep countNeighbors s i j g =
           Inr (g[i := (g ! i)[j := Num (lifeRule (cellValue s i j) (neighborCountSpec s (int i) (int j)))]])"
proof -
  have cn: "countNeighbors s (int i) (int j) = Inr (neighborCountSpec s (int i) (int j))"
    using countNeighbors_wf [OF wf, of "int i" "int j"] i j by simp
  from wf i j have len: "i < length (grid s)" "j < length (grid s ! i)"
    by (auto simp: wf_state_nth)
  have rd: "readCell (grid s) (Some (int i)) (Some (int j)) = Inr (Num (cellValue s i j))"
    using readCell_in_range [OF len] wf_cellValue [OF wf i j] by simp
  have nn: "0 \<le> cellValue s i j" using wf_cellValue [OF wf i j] by simp
  have same: "g[i := (g ! i)[j := Num 0]] = g"
    using g by (metis list_update_id)
  have wr: "writeCell g i j v = Inr (g[i := (g ! i)[j := v]])" for v
    using writeCell_in_range [of i g j v] g i j by simp
  show ?thesis
    using nn by (auto simp: cellStep_def cn rd gtZero_def lifeRule_def wr same Let_def)
qed

lemma computeNextGeneration_cells:
  assumes wf: "wf_state s"
  shows "\<exists>g. computeNextGeneration s = Inr (s\<lparr>grid := g\<rparr>) \<and> length g = rows s \<and>
           (\<forall>x<rows s. length (g ! x) = cols s \<and>
              (\<forall>y<cols s. g ! x ! y =
                 Num (lifeRule (cellValue s x y) (neighborCountSpec s (int x) (int y)))))"
proof -
  have "\<exists>g. forEach [0..<rows s] (\<lambda>i. forEach [0..<cols s] (cellStep countNeighbors s i))
               (replicate (rows s) (replicate (cols s) (Num 0))) = Inr g \<and>
             length g = rows s \<and>
             (\<forall>x<rows s. length (g ! x) = cols s \<and>
                (\<forall>y<cols s. g ! x ! y =
                   (if x < rows s \<and> y < cols s
                    then Num (lifeRule (cellValue s x y) (neighborCountSpec s (int x) (int y)))
                    else Num 0)))"
    by (rule fill_loop) (use cellStep_wf [OF wf] in auto)
  then show ?thesis
    by (auto simp: computeNextGeneration_def computeNextGenerationWith_def createEmptyGrid_def)
qed

lemma computeNextGeneration_nextGrid:
  assumes wf: "wf_state s"
  shows "computeNextGeneration s = Inr (s\<lparr>grid := nextGrid s\<rparr>)"
proof -
  from computeNextGeneration_cells [OF wf] obtain g where
    g: "computeNextGeneration s = Inr (s\<lparr>grid := g\<rparr>)" "length g = rows s"
      "\<And>x. x < rows s \<Longrightarrow> length (g ! x) = cols s"
      "\<And>x y. x < rows s \<Longrightarrow> y < cols s \<Longrightarrow>
         g ! x ! y = Num (lifeRule (cellValue s x y) (neighborCountSpec s (int x) (int y)))"
    by blast
  have "g = nextGrid s"
  proof (rule nth_equalityI)
    show "length g = length (nextGrid s)" using g(2) by (simp add: nextGrid_def)
  next
    fix x assume "x < length g"
    with g(2) have x: "x < rows s" by simp
    show "g ! x = nextGrid s ! x"
    proof (rule nth_equalityI)
      show "length (g ! x) = length (nextGrid s ! x)" using g(3) [OF x] x by (simp add: nextGrid_def)
    next
      fix y assume "y < length (g ! x)"
      with g(3) [OF x] have "y < cols s" by simp
      with g(4) [OF x this] x show "g ! x ! y = nextGrid s ! x ! y" by (simp add: nextGrid_def)
    qed
  qed
  with g(1) show ?thesis by simp
qed

subsection \<open>The generation rule\<close>

lemma wf_unitState: "wf_state unitState"
  by (simp add: wf_state_def unitState_def isCount_def)

lemma wf_blinkerState: "wf_state blinkerState"
  by (simp add: wf_state_def blinkerState_def isCount_def)

text \<open>Claim C1. On a \<open>rows \<times> cols\<close> grid of non-negative numbers \<open>computeNextGeneration\<close>
  returns normally and replaces the grid by a new \<open>rows \<times> cols\<close> grid, leaving the other variables
  as they were. Every cell of the new grid is decided by the value \<open>v\<close> of the same cell of the old
  grid and by the count \<open>n\<close> that \<open>countNeighbors\<close> returns on the old state, so no neighbour read
  sees a cell of the new generation: a cell with \<open>v > 0\<close> and \<open>n\<close> equal to 2 or 3 becomes \<open>n\<close>, a cell
  with \<open>v = 0\<close> and \<open>n = 3\<close> becomes 3, and every other cell becomes 0.\<close>

theorem computeNextGeneration_rule:
  assumes "wf_state s"
  shows "\<exists>g. computeNextGeneration s = Inr (s\<lparr>grid := g\<rparr>) \<and> length g = rows s \<and>
     (\<forall>i<rows s. length (g ! i) = cols s \<and>
        (\<forall>j<cols s. \<exists>v n. grid s ! i ! j = Num v \<and> countNeighbors s (int i) (int j) = Inr n \<and>
           (0 < v \<and> (n = 2 \<or> n = 3) \<longrightarrow> g ! i ! j = Num n) \<and>
           (v = 0 \<and> n = 3 \<longrightarrow> g ! i ! j = Num 3) \<and>
           (\<not> (0 < v \<and> (n = 2 \<or> n = 3)) \<and> \<not> (v = 0 \<and> n = 3) \<longrightarrow> g ! i ! j = Num 0)))"
proof -
  from computeNextGeneration_cells [OF assms] obtain g where
    g: "computeNextGeneration s = Inr (s\<lparr>grid := g\<rparr>)" "length g = rows s"
      "\<And>x. x < rows s \<Longrightarrow> length (g ! x) = cols s"
      "\<And>x y. x < rows s \<Longrightarrow> y < cols s \<Longrightarrow>
         g ! x ! y = Num (lifeRule (cellValue s x y) (neighborCountSpec s (int x) (int y)))"
    by blast
  have "\<exists>v n. grid s ! i ! j = Num v \<and> countNeighbors s (int i) (int j) = Inr n \<and>
           (0 < v \<and> (n = 2 \<or> n = 3) \<longrightarrow> g ! i ! j = Num n) \<and>
           (v = 0 \<and> n = 3 \<longrightarrow> g ! i ! j = Num 3) \<and>
           (\<not> (0 < v \<and> (n = 2 \<or> n = 3)) \<and> \<not> (v = 0 \<and> n = 3) \<longrightarrow> g ! i ! j = Num 0)"
    if i: "i < rows s" and j: "j < cols s" for i j
  proof (intro exI conjI)
    show "grid s ! i ! j = Num (cellValue s i j)"
      using wf_cellValue [OF assms i j] by simp
    show "countNeighbors s (int i) (int j) = Inr (neighborCountSpec s (int i) (int j))"
      using countNeighbors_wf [OF assms, of "int i" "int j"] i j by simp
  qed (auto simp: g(4) [OF i j] lifeRule_def)
  with g(1,2,3) show ?thesis by blast
qed

theorem computeNextGeneration_rule_witness:
  "wf_state blinkerState \<and>
   (\<exists>g. computeNextGeneration blinkerState = Inr (blinkerState\<lparr>grid := g\<rparr>) \<and>
        g = [[Num 0, Num 0, Num 0, Num 0, Num 0],
             [Num 0, Num 0, Num 3, Num 0, Num 0],
             [Num 0, Num 0, Num 2, Num 0, Num 0],
             [Num 0, Num 0, Num 3, Num 0, Num 0],
             [Num 0, Num 0, Num 0, Num 0, Num 0]])"
proof -
  let ?g1 = "[[Num 0, Num 0, Num 0, Num 0, Num 0],
              [Num 0, Num 0, Num 3, Num 0, Num 0],
              [Num 0, Num 0, Num 2, Num 0, Num 0],
              [Num 0, Num 0, Num 3, Num 0, Num 0],
              [Num 0, Num 0, Num 0, Num 0, Num 0]]"
  have ev: "computeNextGeneration blinkerState = Inr (blinkerState\<lparr>grid := ?g1\<rparr>)"
    by code_simp
  from computeNextGeneration_rule [OF wf_blinkerState] obtain g where
    g: "computeNextGeneration blinkerState = Inr (blinkerState\<lparr>grid := g\<rparr>)" by blast
  from g ev have "grid (blinkerState\<lparr>grid := g\<rparr>) = grid (blinkerState\<lparr>grid := ?g1\<rparr>)"
    by simp
  then have "g = ?g1" by simp
  with g wf_blinkerState show ?thesis by blast
qed

subsection \<open>The neighbour count\<close>

lemma corner_cells:
  assumes "0 < rows s" "0 < cols s"
  shows "(0, 0) \<in> set (neighborCells s (int (rows s) - 1) (int (cols s) - 1))"
    and "(0, 0) \<in> set (neighborCells s 0 (int (cols s) - 1))"
    and "(0, 0) \<in> set (neighborCells s (int (rows s) - 1) 0)"
  using assms by (simp_all add: neighborCells_def mooreOffsets_def wrapIdx_def)

lemma mooreOffsets_all:
  "distinct mooreOffsets \<and> set mooreOffsets = {-1, 0, 1} \<times> {-1, 0, 1} - {(0, 0)}"
  by (auto simp: mooreOffsets_def)

text \<open>Claim C2. On a \<open>rows \<times> cols\<close> grid and for an in-range \<open>(row, col)\<close> (so both extents are
  positive, and may be 1) \<open>countNeighbors\<close> returns the number of the eight Moore offsets
  \<open>(i, j)\<close> for which the cell at \<open>((row + i + rows) mod rows, (col + j + cols) mod cols)\<close> is
  positive, a number between 0 and 8; \<open>mooreOffsets\<close> lists each offset of \<open>{-1, 0, 1}\<^sup>2\<close> other than
  \<open>(0, 0)\<close> once. The cell \<open>(0, 0)\<close> is among the neighbour positions of
  \<open>(rows - 1, cols - 1)\<close>, of \<open>(0, cols - 1)\<close> and of \<open>(rows - 1, 0)\<close>, so when it is alive each of
  the three counts is at least 1. The example after the theorem is the \<open>1 \<times> 1\<close> grid, where the
  only cell is its own neighbour through all eight offsets.\<close>

theorem countNeighbors_spec:
  assumes wf: "wf_state s"
    and row: "0 \<le> row" "row < int (rows s)" and col: "0 \<le> col" "col < int (cols s)"
  shows "countNeighbors s row col = Inr (neighborCountSpec s row col) \<and>
         0 \<le> neighborCountSpec s row col \<and> neighborCountSpec s row col \<le> 8 \<and>
         distinct mooreOffsets \<and> set mooreOffsets = {-1, 0, 1} \<times> {-1, 0, 1} - {(0, 0)} \<and>
         (0, 0) \<in> set (neighborCells s (int (rows s) - 1) (int (cols s) - 1)) \<and>
         (0, 0) \<in> set (neighborCells s 0 (int (cols s) - 1)) \<and>
         (0, 0) \<in> set (neighborCells s (int (rows s) - 1) 0) \<and>
         (liveAt s 0 0 \<longrightarrow>
            (\<exists>n\<ge>1. countNeighbors s (int (rows s) - 1) (int (cols s) - 1) = Inr n) \<and>
            (\<exists>n\<ge>1. countNeighbors s 0 (int (cols s) - 1) = Inr n) \<and>
            (\<exists>n\<ge>1. countNeighbors s (int (rows s) - 1) 0 = Inr n))"
proof -
  from row col have pos: "0 < rows s" "0 < cols s" by auto
  have live: "1 \<le> neighborCountSpec s r c"
    if "liveAt s 0 0" "(0, 0) \<in> set (neighborCells s r c)" for r c
  proof -
    from that have "(0, 0) \<in> set (filter (\<lambda>(r, c). liveAt s r c) (neighborCells s r c))"
      by simp
    then have "0 < length (filter (\<lambda>(r, c). liveAt s r c) (neighborCells s r c))"
      by (rule length_pos_if_in_set)
    then show ?thesis unfolding neighborCountSpec_def by linarith
  qed
  have cn: "countNeighbors s r c = Inr (neighborCountSpec s r c)"
    if "0 \<le> r" "r < int (rows s)" "0 \<le> c" "c < int (cols s)" for r c
    using countNeighbors_wf [OF wf that] .
  have c1: "countNeighbors s (int (rows s) - 1) (int (cols s) - 1) =
              Inr (neighborCountSpec s (int (rows s) - 1) (int (cols s) - 1))"
    and c2: "countNeighbors s 0 (int (cols s) - 1) = Inr (neighborCountSpec s 0 (int (cols s) - 1))"
    and c3: "countNeighbors s (int (rows s) - 1) 0 = Inr (neighborCountSpec s (int (rows s) - 1) 0)"
    using pos by (auto intro!: cn)
  have corners: "liveAt s 0 0 \<longrightarrow>
            (\<exists>n\<ge>1. countNeighbors s (int (rows s) - 1) (int (cols s) - 1) = Inr n) \<and>
            (\<exists>n\<ge>1. countNeighbors s 0 (int (cols s) - 1) = Inr n) \<and>
            (\<exists>n\<ge>1. countNeighbors s (int (rows s) - 1) 0 = Inr n)"
    using corner_cells [OF pos] live c1 c2 c3 by auto
  show ?thesis
    using cn [OF row col] neighborCountSpec_bounds [of s row col] corner_cells [OF pos]
      mooreOffsets_all corners
    by blast
qed

theorem countNeighbors_spec_witness:
  "wf_state unitState \<and> countNeighbors unitState 0 0 = Inr 8 \<and>
   neighborCells unitState 0 0 = replicate 8 (0, 0) \<and> liveAt unitState 0 0"
proof -
  have "neighborCountSpec unitState 0 0 = 8"
    by (simp add: neighborCountSpec_def neighborCells_def mooreOffsets_def liveAt_def
        unitState_def gtZero_def wrapIdx_def)
  moreover have "neighborCells unitState 0 0 = replicate 8 (0, 0)"
    by (simp add: neighborCells_def mooreOffsets_def unitState_def numeral_eq_Suc wrapIdx_def)
  moreover have "liveAt unitState 0 0"
    by (simp add: liveAt_def unitState_def gtZero_def)
  ultimately show ?thesis
    using countNeighbors_spec [OF wf_unitState, of 0 0] wf_unitState
    by (simp add: unitState_def)
qed

subsection \<open>Grids with an extent of zero\<close>

lemma forEach_skip: "forEach xs (\<lambda>i a. Inr a) a = Inr a"
  by (induction xs) auto

lemma forEach_no_index: "forEach [] body = (\<lambda>a. Inr a)"
  by (rule ext) simp

lemma countNeighbors_zero_rows: "rows s = 0 \<Longrightarrow> countNeighbors s row col = Inl TypeError"
  by (simp add: countNeighbors_def neighborStep_def jsRem_def readCell_def rowAt_def)

text \<open>Claim C7. When \<open>rows\<close> or \<open>cols\<close> is 0, \<open>computeNextGeneration\<close> returns normally with the empty
  grid of \<open>rows\<close> rows. The result is the same whatever function stands in for
  \<open>countNeighbors\<close>, also one that always raises: the loops never call it, so neither
  \<open>% rows\<close> nor \<open>% cols\<close> is evaluated. On a well-formed state the state is left as it was.
  (Called directly with \<open>rows = 0\<close>, \<open>countNeighbors\<close> does raise: lemma
  \<open>countNeighbors_zero_rows\<close>.)\<close>

theorem computeNextGeneration_zero_dimension:
  assumes "rows s = 0 \<or> cols s = 0"
  shows "computeNextGeneration s = Inr (s\<lparr>grid := replicate (rows s) []\<rparr>) \<and>
         (\<forall>cn. computeNextGenerationWith cn s = Inr (s\<lparr>grid := replicate (rows s) []\<rparr>)) \<and>
         (wf_state s \<longrightarrow> computeNextGeneration s = Inr s)"
proof -
  have w: "computeNextGenerationWith cn s = Inr (s\<lparr>grid := replicate (rows s) []\<rparr>)" for cn
    using assms
    by (auto simp: computeNextGenerationWith_def createEmptyGrid_def forEach_no_index forEach_skip)
  have "grid s = replicate (rows s) []" if "wf_state s"
    using that assms
    by (intro replicate_eqI) (auto simp: wf_state_def list_all_iff)
  then have "wf_state s \<Longrightarrow> s\<lparr>grid := replicate (rows s) []\<rparr> = s" by simp
  with w show ?thesis by (simp add: computeNextGeneration_def)
qed

theorem computeNextGeneration_zero_dimension_witness:
  "computeNextGeneration initialState = Inr initialState \<and>
   computeNextGeneration emptyColsState = Inr emptyColsState \<and>
   computeNextGenerationWith (\<lambda>s row col. Inl TypeError) emptyColsState = Inr emptyColsState \<and>
   countNeighbors initialState 0 0 = Inl TypeError"
  using computeNextGeneration_zero_dimension [of initialState]
    computeNextGeneration_zero_dimension [of emptyColsState]
    countNeighbors_zero_rows [of initialState 0 0]
  by (simp add: initialState_def emptyColsState_def numeral_2_eq_2)

lemma interval_positive_speed:
  "0 < speed s \<Longrightarrow> interval s = round64 (1000 / real_of_int (speed s))"
  by (simp add: interval_def)

subsection \<open>The animation step\<close>

text \<open>Claim C3. With a positive speed, on a well-formed state: when \<open>isPlaying\<close> is false \<open>animate\<close>
  returns the state unchanged; when it is true and \<open>timestamp - lastUpdate >= 1000 / speed\<close>, the
  result is the state after one call of \<open>computeNextGeneration\<close> with \<open>lastUpdate\<close> set to
  \<open>timestamp\<close>; otherwise the state is unchanged, \<open>lastUpdate\<close> included. The subtraction, the
  division and the comparison are those of the script, on binary64 numbers. The examples after
  the theorem are speed 2 with \<open>lastUpdate\<close> 0.2 and \<open>timestamp\<close> 500.2, where the difference
  rounds to 500 and a generation is due, and speed 3, where the interval is
  \<open>5864062014805333 / 2 ^ 44\<close> and a generation is due at that time stamp and not one step of
  \<open>2 ^ -44\<close> before it.\<close>

theorem animate_spec:
  assumes wf: "wf_state s" and sp: "0 < speed s"
  shows "(\<not> isPlaying s \<longrightarrow> animate s timestamp = Inr s) \<and>
         (isPlaying s \<and>
          jsGe (jsSub timestamp (lastUpdate s)) (round64 (1000 / real_of_int (speed s))) \<longrightarrow>
            (\<exists>s'. computeNextGeneration s = Inr s' \<and>
                  animate s timestamp = Inr (s'\<lparr>lastUpdate := timestamp\<rparr>))) \<and>
         (isPlaying s \<and>
          \<not> jsGe (jsSub timestamp (lastUpdate s)) (round64 (1000 / real_of_int (speed s))) \<longrightarrow>
            animate s timestamp = Inr s)"
  using computeNextGeneration_nextGrid [OF wf]
  by (simp add: animate_def interval_positive_speed [OF sp])

lemma double_500_2_minus_0_2:
  "jsSub (8799611459416883 / 2 ^ 44) (3602879701896397 / 2 ^ 54) = Finite 500"
  by code_simp

lemma interval_speed_2: "round64 (1000 / real_of_int 2) = Finite 500"
  by code_simp

lemma interval_speed_3: "round64 (1000 / real_of_int 3) = Finite (5864062014805333 / 2 ^ 44)"
  by code_simp

lemma elapsed_at_interval_3:
  "jsSub (5864062014805333 / 2 ^ 44) 0 = Finite (5864062014805333 / 2 ^ 44)"
  by code_simp

lemma elapsed_below_interval_3:
  "jsSub (5864062014805332 / 2 ^ 44) 0 = Finite (5864062014805332 / 2 ^ 44)"
  by code_simp

theorem animate_spec_witness:
  "animate unitState 5000 = Inr unitState \<and>
   (\<exists>s'. computeNextGeneration lateState = Inr s' \<and>
         animate lateState (8799611459416883 / 2 ^ 44) =
           Inr (s'\<lparr>lastUpdate := 8799611459416883 / 2 ^ 44\<rparr>)) \<and>
   (\<exists>s'. computeNextGeneration fastState = Inr s' \<and>
         animate fastState (5864062014805333 / 2 ^ 44) =
           Inr (s'\<lparr>lastUpdate := 5864062014805333 / 2 ^ 44\<rparr>)) \<and>
   animate fastState (5864062014805332 / 2 ^ 44) = Inr fastState"
proof -
  have u: "wf_state unitState" "0 < speed unitState" "\<not> isPlaying unitState"
    using wf_unitState by (simp_all add: unitState_def)
  have l: "wf_state lateState" "0 < speed lateState" "isPlaying lateState"
    by (simp_all add: lateState_def blinkerState_def wf_state_def isCount_def)
  have f: "wf_state fastState" "0 < speed fastState" "isPlaying fastState"
    by (simp_all add: fastState_def blinkerState_def wf_state_def isCount_def)
  have lv: "lastUpdate lateState = 3602879701896397 / 2 ^ 54" "speed lateState = 2"
    by (simp_all add: lateState_def blinkerState_def)
  have fv: "lastUpdate fastState = 0" "speed fastState = 3"
    by (simp_all add: fastState_def blinkerState_def)
  have late: "jsGe (jsSub (8799611459416883 / 2 ^ 44) (lastUpdate lateState))
                (round64 (1000 / real_of_int (speed lateState)))"
    unfolding lv double_500_2_minus_0_2 interval_speed_2 by simp
  have fast: "jsGe (jsSub (5864062014805333 / 2 ^ 44) (lastUpdate fastState))
                (round64 (1000 / real_of_int (speed fastState)))"
    unfolding fv elapsed_at_interval_3 interval_speed_3 by simp
  have slow: "\<not> jsGe (jsSub (5864062014805332 / 2 ^ 44) (lastUpdate fastState))
                  (round64 (1000 / real_of_int (speed fastState)))"
    unfolding fv elapsed_below_interval_3 interval_speed_3 by simp
  have 1: "animate unitState 5000 = Inr unitState"
    using animate_spec [OF u(1,2), of 5000] u(3) by blast
  have 2: "\<exists>s'. computeNextGeneration lateState = Inr s' \<and>
         animate lateState (8799611459416883 / 2 ^ 44) =
           Inr (s'\<lparr>lastUpdate := 8799611459416883 / 2 ^ 44\<rparr>)"
    using animate_spec [OF l(1,2), of "8799611459416883 / 2 ^ 44"] l(3) late by blast
  have 3: "\<exists>s'. computeNextGeneration fastState = Inr s' \<and>
         animate fastState (5864062014805333 / 2 ^ 44) =
           Inr (s'\<lparr>lastUpdate := 5864062014805333 / 2 ^ 44\<rparr>)"
    using animate_spec [OF f(1,2), of "5864062014805333 / 2 ^ 44"] f(3) fast by blast
  have 4: "animate fastState (5864062014805332 / 2 ^ 44) = Inr fastState"
    using animate_spec [OF f(1,2), of "5864062014805332 / 2 ^ 44"] f(3) slow by blast
  from 1 2 3 4 show ?thesis by blast
qed

subsection \<open>Toggling twice\<close>

lemma wf_state_update:
  assumes wf: "wf_state s" and i: "i < rows s" and j: "j < cols s" and v: "isCount v"
  shows "wf_state (s\<lparr>grid := (grid s)[i := (grid s ! i)[j := v]]\<rparr>)"
  using assms by (auto simp: wf_state_nth nth_list_update)

lemma toggleCell_wf:
  assumes wf: "wf_state s" and t: "toggleCell s row col = Inr s'"
  shows "wf_state s'"
proof (cases "0 \<le> row \<and> row < int (rows s) \<and> 0 \<le> col \<and> col < int (cols s)")
  case True
  then have "nat row < rows s" "nat col < cols s" by auto
  then have "wf_state (s\<lparr>grid := (grid s)[nat row := (grid s ! nat row)[nat col := Num w]]\<rparr>)"
    if "0 \<le> w" for w
    using wf_state_update [OF wf, of "nat row" "nat col" "Num w"] that by (simp add: isCount_def)
  with True t toggleCell_inside [OF wf, of row col] show ?thesis by auto
next
  case False
  with t wf toggleCell_outside [of row s col] show ?thesis by auto
qed

text \<open>Claim C5. Toggling a dead in-range cell twice gives back the state it started from: after
  the first call the cell holds 3, after the second it holds its original 0 and the whole state
  is the original one. Outside \<open>[0, rows) \<times> [0, cols)\<close> a call changes nothing.\<close>

theorem toggleCell_twice:
  "(wf_state s \<and> 0 \<le> row \<and> row < int (rows s) \<and> 0 \<le> col \<and> col < int (cols s) \<and>
      grid s ! nat row ! nat col = Num 0 \<longrightarrow>
      (\<exists>s1. toggleCell s row col = Inr s1 \<and> grid s1 ! nat row ! nat col = Num 3 \<and>
            toggleCell s1 row col = Inr s \<and> grid s ! nat row ! nat col = Num 0)) \<and>
   (row < 0 \<or> row \<ge> int (rows s) \<or> col < 0 \<or> col \<ge> int (cols s) \<longrightarrow> toggleCell s row col = Inr s)"
proof (intro conjI impI)
  assume a: "wf_state s \<and> 0 \<le> row \<and> row < int (rows s) \<and> 0 \<le> col \<and> col < int (cols s) \<and>
      grid s ! nat row ! nat col = Num 0"
  let ?s1 = "s\<lparr>grid := (grid s)[nat row := (grid s ! nat row)[nat col := Num 3]]\<rparr>"
  from a have len: "nat row < length (grid s)" "nat col < length (grid s ! nat row)"
    by (auto simp: wf_state_nth)
  from a have t1: "toggleCell s row col = Inr ?s1"
    using toggleCell_inside [of s row col] by (simp add: gtZero_def)
  then have wf1: "wf_state ?s1" using a toggleCell_wf by blast
  from len have c1: "grid ?s1 ! nat row ! nat col = Num 3" by simp
  have restore: "(grid ?s1)[nat row := (grid ?s1 ! nat row)[nat col := Num 0]] = grid s"
  proof -
    from a have "(grid s ! nat row)[nat col := Num 0] = grid s ! nat row"
      by (metis list_update_id)
    then show ?thesis using len by (simp add: list_update_id)
  qed
  have "toggleCell ?s1 row col = Inr s"
    using toggleCell_inside [OF wf1, of row col] a restore c1 by (simp add: gtZero_def)
  with t1 c1 a show "\<exists>s1. toggleCell s row col = Inr s1 \<and> grid s1 ! nat row ! nat col = Num 3 \<and>
            toggleCell s1 row col = Inr s \<and> grid s ! nat row ! nat col = Num 0"
    by blast
next
  assume "row < 0 \<or> row \<ge> int (rows s) \<or> col < 0 \<or> col \<ge> int (cols s)"
  then show "toggleCell s row col = Inr s" by (rule toggleCell_outside)
qed

theorem toggleCell_twice_witness:
  "toggleCell demoState 1 1 = Inr (demoState\<lparr>grid := [[Num 0, Num 3, Num 0], [Num 2, Num 3, Num 0]]\<rparr>) \<and>
   toggleCell (demoState\<lparr>grid := [[Num 0, Num 3, Num 0], [Num 2, Num 3, Num 0]]\<rparr>) 1 1 = Inr demoState \<and>
   toggleCell demoState (-1) 1 = Inr demoState \<and> toggleCell demoState 1 3 = Inr demoState"
proof -
  have t1: "toggleCell demoState 1 1 =
              Inr (demoState\<lparr>grid := [[Num 0, Num 3, Num 0], [Num 2, Num 3, Num 0]]\<rparr>)"
    by (simp add: toggleCell_def demoState_def readCell_def rowAt_def cellAt_def gtZero_def
        writeCell_def setIdx_def)
  have pre: "wf_state demoState \<and> (0::int) \<le> 1 \<and> 1 < int (rows demoState) \<and> (0::int) \<le> 1 \<and>
      1 < int (cols demoState) \<and> grid demoState ! nat 1 ! nat 1 = Num 0"
    using wf_demoState by (simp add: demoState_def)
  from toggleCell_twice [of demoState 1 1] pre t1
  have "toggleCell (demoState\<lparr>grid := [[Num 0, Num 3, Num 0], [Num 2, Num 3, Num 0]]\<rparr>) 1 1 =
          Inr demoState"
    by auto
  with t1 toggleCell_twice [of demoState "-1" 1] toggleCell_twice [of demoState 1 3]
  show ?thesis by (simp add: demoState_def)
qed

subsection \<open>Resizing\<close>

lemma copyStep_wf:
  assumes wf: "wf_state s" and i: "i < rows s" and j: "j < cols s"
    and g: "i < length g" "j < length (g ! i)"
  shows "copyStep (grid s) i j g = Inr (g[i := (g ! i)[j := grid s ! i ! j]])"
proof -
  from wf i j have len: "i < length (grid s)" "j < length (grid s ! i)"
    by (auto simp: wf_state_nth)
  show ?thesis
    by (simp add: copyStep_def readCell_in_range [OF len] writeCell_in_range [OF g])
qed

lemma resizeCanvas_cells:
  assumes wf: "wf_state s"
  shows "\<exists>g. resizeCanvas s newCols newRows = Inr (s\<lparr>cols := newCols, rows := newRows, grid := g\<rparr>) \<and>
           length g = newRows \<and>
           (\<forall>i<newRows. length (g ! i) = newCols \<and>
              (\<forall>j<newCols. g ! i ! j =
                 (if i < min (rows s) newRows \<and> j < min (cols s) newCols then grid s ! i ! j
                  else Num 0)))"
proof (cases "length (grid s) > 0")
  case False
  then have "rows s = 0" using wf by (simp add: wf_state_def)
  with False show ?thesis
    by (intro exI [of _ "replicate newRows (replicate newCols (Num 0))"])
      (simp add: resizeCanvas_def createEmptyGrid_def Let_def)
next
  case True
  with wf have r0: "0 < rows s" and l0: "length (grid s ! 0) = cols s" and lg: "length (grid s) = rows s"
    by (auto simp: wf_state_nth)
  let ?m = "min newRows (rows s)" and ?n = "min newCols (cols s)"
  have "\<exists>g. forEach [0..<?m] (\<lambda>i. forEach [0..<?n] (copyStep (grid s) i))
               (replicate newRows (replicate newCols (Num 0))) = Inr g \<and>
             length g = newRows \<and>
             (\<forall>x<newRows. length (g ! x) = newCols \<and>
                (\<forall>y<newCols. g ! x ! y = (if x < ?m \<and> y < ?n then grid s ! x ! y else Num 0)))"
    by (rule fill_loop) (use copyStep_wf [OF wf] in auto)
  then obtain g where
    g: "forEach [0..<?m] (\<lambda>i. forEach [0..<?n] (copyStep (grid s) i))
               (replicate newRows (replicate newCols (Num 0))) = Inr g"
      "length g = newRows"
      "\<forall>x<newRows. length (g ! x) = newCols \<and>
                (\<forall>y<newCols. g ! x ! y = (if x < ?m \<and> y < ?n then grid s ! x ! y else Num 0))"
    by blast
  have "resizeCanvas s newCols newRows = Inr (s\<lparr>cols := newCols, rows := newRows, grid := g\<rparr>)"
  proof -
    from True have "grid s \<noteq> []" by auto
    with g(1) show ?thesis
      by (simp add: resizeCanvas_def createEmptyGrid_def Let_def l0 lg)
  qed
  with g(2,3) show ?thesis by (auto simp: min.commute)
qed

text \<open>Claim C6. From a well-formed state, \<open>resizeCanvas\<close> with new extents \<open>newCols\<close> and \<open>newRows\<close>
  returns normally with a \<open>newRows \<times> newCols\<close> grid. Cell \<open>(i, j)\<close> holds the old cell \<open>(i, j)\<close> when
  \<open>i < min rows newRows\<close> and \<open>j < min cols newCols\<close>, and 0 otherwise. Growing in both directions
  therefore keeps every old cell in its place, and shrinking reads and writes only cells that
  exist: an out-of-range row would raise, an out-of-range cell would read \<open>undefined\<close>.\<close>

theorem resizeCanvas_spec:
  assumes wf: "wf_state s"
  shows "\<exists>g. resizeCanvas s newCols newRows = Inr (s\<lparr>cols := newCols, rows := newRows, grid := g\<rparr>) \<and>
           length g = newRows \<and>
           (\<forall>i<newRows. length (g ! i) = newCols \<and>
              (\<forall>j<newCols.
                 (i < min (rows s) newRows \<and> j < min (cols s) newCols \<longrightarrow> g ! i ! j = grid s ! i ! j) \<and>
                 (\<not> (i < min (rows s) newRows \<and> j < min (cols s) newCols) \<longrightarrow> g ! i ! j = Num 0))) \<and>
           (rows s < newRows \<and> cols s < newCols \<longrightarrow>
              (\<forall>i<rows s. \<forall>j<cols s. g ! i ! j = grid s ! i ! j))"
proof -
  from resizeCanvas_cells [OF wf, of newCols newRows] obtain g where
    g: "resizeCanvas s newCols newRows = Inr (s\<lparr>cols := newCols, rows := newRows, grid := g\<rparr>)"
      "length g = newRows"
      "\<And>i j. i < newRows \<Longrightarrow> j < newCols \<Longrightarrow> g ! i ! j =
                 (if i < min (rows s) newRows \<and> j < min (cols s) newCols then grid s ! i ! j
                  else Num 0)"
      "\<And>i. i < newRows \<Longrightarrow> length (g ! i) = newCols"
    by blast
  have "\<forall>i<rows s. \<forall>j<cols s. g ! i ! j = grid s ! i ! j" if "rows s < newRows \<and> cols s < newCols"
    using that g(3) by simp
  with g show ?thesis by (intro exI [of _ g]) simp
qed

theorem resizeCanvas_spec_witness:
  "wf_state demoState \<and>
   resizeCanvas demoState 4 3 =
     Inr (demoState\<lparr>cols := 4, rows := 3,
            grid := [[Num 0, Num 3, Num 0, Num 0], [Num 2, Num 0, Num 0, Num 0],
                     [Num 0, Num 0, Num 0, Num 0]]\<rparr>) \<and>
   resizeCanvas demoState 2 1 = Inr (demoState\<lparr>cols := 2, rows := 1, grid := [[Num 0, Num 3]]\<rparr>) \<and>
   (\<exists>g. resizeCanvas demoState 4 3 = Inr (demoState\<lparr>cols := 4, rows := 3, grid := g\<rparr>) \<and>
        length g = 3)"
proof -
  have "resizeCanvas demoState 4 3 =
     Inr (demoState\<lparr>cols := 4, rows := 3,
            grid := [[Num 0, Num 3, Num 0, Num 0], [Num 2, Num 0, Num 0, Num 0],
                     [Num 0, Num 0, Num 0, Num 0]]\<rparr>)"
    by code_simp
  moreover have "resizeCanvas demoState 2 1 =
      Inr (demoState\<lparr>cols := 2, rows := 1, grid := [[Num 0, Num 3]]\<rparr>)"
    by code_simp
  moreover from resizeCanvas_spec [OF wf_demoState, of 4 3]
  have "\<exists>g. resizeCanvas demoState 4 3 = Inr (demoState\<lparr>cols := 4, rows := 3, grid := g\<rparr>) \<and>
        length g = 3"
    by blast
  ultimately show ?thesis using wf_demoState by blast
qed

subsection \<open>Randomizing\<close>

lemma randomizeGrid_cells:
  "\<exists>g. randomizeGrid rnd s = Inr (s\<lparr>grid := g\<rparr>) \<and> length g = rows s \<and>
       (\<forall>i<rows s. length (g ! i) = cols s \<and>
          (\<forall>j<cols s. g ! i ! j = randomCell rnd (cols s) i j))"
proof -
  let ?R = "rows s" and ?C = "cols s"
  let ?v = "randomCell rnd ?C"
  let ?I = "\<lambda>i j a. fillInv ?R ?C ?C ?v (Num 0) i j (fst a) \<and> snd a = i * ?C + j"
  have "\<exists>a. forEach [0..<?R] (\<lambda>i. forEach [0..<?C] (randomStep rnd i))
              (createEmptyGrid s, 0) = Inr a \<and> ?I ?R 0 a"
  proof (rule forEach_nested_inv [where I = ?I])
    show "?I 0 0 (createEmptyGrid s, 0)"
      by (simp add: createEmptyGrid_def fillInv_init)
  next
    fix i j a
    assume i: "i < ?R" and j: "j < ?C" and inv: "?I i j a"
    obtain g k where a: "a = (g, k)" by (cases a)
    from inv a i j have len: "i < length g" "j < length (g ! i)" and k: "k = i * ?C + j"
      by (auto simp: fillInv_def)
    have "randomStep rnd i j a = Inr (g[i := (g ! i)[j := ?v i j]], Suc k)"
      by (simp add: randomStep_def a writeCell_in_range [OF len] randomCell_def k)
    moreover have "fillInv ?R ?C ?C ?v (Num 0) i (Suc j) (g[i := (g ! i)[j := ?v i j]])"
      using fillInv_update [of ?R ?C ?C ?v "Num 0" i j g] inv a i j by simp
    ultimately show "\<exists>a'. randomStep rnd i j a = Inr a' \<and> ?I i (Suc j) a'"
      using k by simp
  next
    fix i a
    assume "?I i ?C a"
    then show "?I (Suc i) 0 a" by (simp add: fillInv_next_row)
  qed
  then obtain g k where
    "forEach [0..<?R] (\<lambda>i. forEach [0..<?C] (randomStep rnd i))
              (createEmptyGrid s, 0) = Inr (g, k)" "fillInv ?R ?C ?C ?v (Num 0) ?R 0 g"
    by auto
  then show ?thesis
    using fillInv_final [of ?R ?C ?C ?v "Num 0" ?R g] by (auto simp: randomizeGrid_def)
qed

subsection \<open>Cell values in reachable states\<close>

lemma gridInv_nth:
  "gridInv s \<longleftrightarrow>
     length (grid s) = rows s \<and>
     (\<forall>i<rows s. length (grid s ! i) = cols s \<and> (\<forall>j<cols s. cellOK (grid s ! i ! j)))"
  by (auto simp: gridInv_def list_all_length)

lemma cellOK_isCount: "cellOK v \<Longrightarrow> isCount v"
  by (auto simp: cellOK_def isCount_def)

lemma gridInv_wf: "gridInv s \<Longrightarrow> wf_state s"
  by (auto simp: gridInv_nth wf_state_nth cellOK_isCount)

lemma gridInv_empty: "grid s = createEmptyGrid s \<Longrightarrow> gridInv s"
  by (simp add: gridInv_nth createEmptyGrid_def cellOK_def)

lemma gridInv_step:
  assumes "gridInv s" "computeNextGeneration s = Inr s'"
  shows "gridInv s'"
proof -
  have "s' = s\<lparr>grid := nextGrid s\<rparr>"
    using computeNextGeneration_nextGrid [OF gridInv_wf [OF assms(1)]] assms(2) by simp
  then show ?thesis
    by (simp add: gridInv_def nextGrid_def cellOK_def lifeRule_def list_all_iff)
qed

lemma gridInv_toggle:
  assumes inv: "gridInv s" and t: "toggleCell s row col = Inr s'"
  shows "gridInv s'"
proof (cases "0 \<le> row \<and> row < int (rows s) \<and> 0 \<le> col \<and> col < int (cols s)")
  case True
  then have rc: "nat row < rows s" "nat col < cols s" by auto
  have "gridInv (s\<lparr>grid := (grid s)[nat row := (grid s ! nat row)[nat col := Num w]]\<rparr>)"
    if "w = 0 \<or> w = 3" for w
    using inv rc that by (auto simp: gridInv_nth nth_list_update cellOK_def)
  with True t toggleCell_inside [OF gridInv_wf [OF inv], of row col] show ?thesis by auto
next
  case False
  with t inv toggleCell_outside [of row s col] show ?thesis by auto
qed

lemma cellOK_randomCell: "cellOK (randomCell rnd C i j)"
  by (simp add: randomCell_def cellOK_def)

lemma gridInv_randomize:
  assumes "randomizeGrid rnd s = Inr s'"
  shows "gridInv s'"
  using randomizeGrid_cells [of rnd s] assms
  by (auto simp: gridInv_nth cellOK_randomCell)

lemma gridInv_clear: "gridInv (handleClear s)"
  by (simp add: handleClear_def gridInv_empty createEmptyGrid_def)

lemma gridInv_resize:
  assumes inv: "gridInv s" and r: "resizeCanvas s newCols newRows = Inr s'"
  shows "gridInv s'"
proof -
  from resizeCanvas_cells [OF gridInv_wf [OF inv], of newCols newRows] r obtain g where
    g: "s' = s\<lparr>cols := newCols, rows := newRows, grid := g\<rparr>" "length g = newRows"
      "\<And>i. i < newRows \<Longrightarrow> length (g ! i) = newCols"
      "\<And>i j. i < newRows \<Longrightarrow> j < newCols \<Longrightarrow> g ! i ! j =
                 (if i < min (rows s) newRows \<and> j < min (cols s) newCols then grid s ! i ! j
                  else Num 0)"
    by auto
  have "cellOK (g ! i ! j)" if "i < newRows" "j < newCols" for i j
    using g(4) [OF that] inv by (auto simp: gridInv_nth cellOK_def)
  with g(1,2,3) show ?thesis by (simp add: gridInv_nth)
qed

lemma applyOp_total:
  assumes "gridInv s"
  shows "\<exists>s'. applyOp s x = Inr s'"
proof (cases x)
  case Step
  then show ?thesis using computeNextGeneration_nextGrid [OF gridInv_wf [OF assms]] by simp
next
  case (Toggle row col)
  then show ?thesis
    using toggleCell_inside [OF gridInv_wf [OF assms], of row col] toggleCell_outside [of row s col]
    by (cases "0 \<le> row \<and> row < int (rows s) \<and> 0 \<le> col \<and> col < int (cols s)") auto
next
  case (Randomize rnd)
  then show ?thesis using randomizeGrid_cells [of rnd s] by auto
next
  case Clear
  then show ?thesis by simp
next
  case (Resize newCols newRows)
  then show ?thesis using resizeCanvas_cells [OF gridInv_wf [OF assms], of newCols newRows] by auto
qed

lemma applyOp_gridInv:
  assumes "gridInv s" "applyOp s x = Inr s'"
  shows "gridInv s'"
proof (cases x)
  case Step
  with assms show ?thesis using gridInv_step [of s s'] by simp
next
  case (Toggle row col)
  with assms show ?thesis using gridInv_toggle [of s row col s'] by simp
next
  case (Randomize rnd)
  with assms show ?thesis using gridInv_randomize [of rnd s s'] by simp
next
  case Clear
  with assms show ?thesis using gridInv_clear [of s] by auto
next
  case (Resize newCols newRows)
  with assms show ?thesis using gridInv_resize [of s newCols newRows s'] by simp
qed

lemma run_gridInv: "gridInv s \<Longrightarrow> \<exists>s'. run s ops = Inr s' \<and> gridInv s'"
proof (induction ops arbitrary: s)
  case Nil
  then show ?case by simp
next
  case (Cons x xs)
  from applyOp_total [OF Cons.prems, of x] obtain s1 where s1: "applyOp s x = Inr s1" by blast
  with Cons.prems have "gridInv s1" using applyOp_gridInv by blast
  from Cons.IH [OF this] s1 show ?case by simp
qed

text \<open>Claim C8. Starting from a state whose grid is the empty grid of its extents, every
  sequence of generations, toggles, randomizations, clears and resizes runs without raising
  and ends in a state whose grid is \<open>rows \<times> cols\<close> and whose every cell holds 0, 2 or 3.\<close>

theorem reachable_cells_0_2_3:
  assumes "grid s0 = createEmptyGrid s0"
  shows "\<exists>s. run s0 ops = Inr s \<and> length (grid s) = rows s \<and>
           (\<forall>i<rows s. length (grid s ! i) = cols s \<and>
              (\<forall>j<cols s. grid s ! i ! j = Num 0 \<or> grid s ! i ! j = Num 2 \<or> grid s ! i ! j = Num 3))"
  using run_gridInv [OF gridInv_empty [OF assms], of ops]
  by (auto simp: gridInv_nth cellOK_def)

theorem reachable_cells_0_2_3_witness:
  "grid initialState = createEmptyGrid initialState \<and>
   run initialState [Resize 3 3, Toggle 1 0, Toggle 1 1, Toggle 1 2, Toggle 7 7, Step, Resize 4 2] =
     Inr (initialState\<lparr>cols := 4, rows := 2,
            grid := [[Num 3, Num 3, Num 3, Num 0], [Num 2, Num 2, Num 2, Num 0]]\<rparr>)"
proof -
  have e: "grid initialState = createEmptyGrid initialState"
    by (simp add: initialState_def createEmptyGrid_def)
  have "run initialState [Resize 3 3, Toggle 1 0, Toggle 1 1, Toggle 1 2, Toggle 7 7, Step, Resize 4 2] =
     Inr (initialState\<lparr>cols := 4, rows := 2,
            grid := [[Num 3, Num 3, Num 3, Num 0], [Num 2, Num 2, Num 2, Num 0]]\<rparr>)"
    by code_simp
  with e reachable_cells_0_2_3 [OF e, of "[Resize 3 3, Toggle 1 0, Toggle 1 1, Toggle 1 2, Toggle 7 7, Step, Resize 4 2]"]
  show ?thesis by blast
qed

subsection \<open>The blinker\<close>

lemma wrapIdx_cases:
  assumes "0 \<le> x" "x < N"
  shows "wrapIdx N x (-1) = (if x = 0 then N - 1 else x - 1)"
    and "wrapIdx N x 0 = x"
    and "wrapIdx N x 1 = (if x + 1 = N then 0 else x + 1)"
  using assms by (auto simp: wrapIdx_def zmod_minus1)

lemma near_cases:
  assumes "0 \<le> x" "x < N" "0 \<le> p" "p < N"
  shows "near N x p \<longleftrightarrow> x = p \<or> x = p + 1 \<or> x + 1 = p \<or> (x = 0 \<and> p + 1 = N) \<or> (p = 0 \<and> x + 1 = N)"
  using assms by (auto simp: near_def wrapIdx_cases)

lemma wrap_range:
  assumes "0 \<le> x" "x < N"
  shows "0 \<le> wrapIdx N x i \<and> wrapIdx N x i < N"
  using assms by (simp add: wrapIdx_def)

lemma hits_point:
  assumes "0 \<le> x" "x < N" "0 \<le> p" "p < N" "3 \<le> N"
  shows "of_bool (wrapIdx N x (-1) = p) + of_bool (wrapIdx N x 0 = p) + of_bool (wrapIdx N x 1 = p)
           = (of_bool (near N x p) :: int)"
  unfolding near_cases [OF assms(1-4)] wrapIdx_cases [OF assms(1,2)]
  using assms by (cases "x = 0"; cases "x + 1 = N"; cases "x = p"; simp; linarith?)

lemma hits_segment:
  fixes h :: int
  assumes x: "0 \<le> x" "x < N" and p: "0 \<le> p" "p < N" and N: "4 \<le> N"
    and h: "h = of_bool (near N (wrapIdx N x (-1)) p) + of_bool (near N (wrapIdx N x 0) p) +
                of_bool (near N (wrapIdx N x 1) p)"
  shows "(x = p \<longrightarrow> h = 3) \<and> (near N x p \<and> x \<noteq> p \<longrightarrow> h = 2) \<and>
         (\<not> near N x p \<longrightarrow> 0 \<le> h \<and> h \<le> 2)"
proof -
  define a where "a = wrapIdx N x (-1)"
  define b where "b = wrapIdx N x 1"
  have a: "a = (if x = 0 then N - 1 else x - 1)" and b: "b = (if x + 1 = N then 0 else x + 1)"
    and w0: "wrapIdx N x 0 = x"
    unfolding a_def b_def using wrapIdx_cases [OF x] by simp_all
  have ra: "0 \<le> a" "a < N" and rb: "0 \<le> b" "b < N"
    unfolding a_def b_def using wrap_range [OF x] by simp_all
  note na = near_cases [OF ra p] and nb = near_cases [OF rb p] and nx = near_cases [OF x p]
  have h': "h = of_bool (near N a p) + of_bool (near N x p) + of_bool (near N b p)"
    unfolding h a_def b_def w0 ..
  have mid: "near N a p \<and> near N x p \<and> near N b p" if "x = p"
    unfolding na nb nx using that a b x p N by (auto split: if_splits)
  have side: "near N a p \<noteq> near N b p" if "near N x p" "x \<noteq> p"
    using that unfolding na nb nx using a b x p N by (auto split: if_splits)
  have 1: "h = 3" if "x = p"
    using mid [OF that] by (simp add: h')
  have 2: "h = 2" if "near N x p" "x \<noteq> p"
    using that(1) side [OF that] by (cases "near N a p") (auto simp: h')
  have 3: "0 \<le> h \<and> h \<le> 2" if "\<not> near N x p"
    using that by (simp add: h')
  from 1 2 3 show ?thesis by blast
qed

lemma wrapIdx_nat:
  assumes "c < C"
  shows "int ((c + C - 1) mod C) = wrapIdx (int C) (int c) (-1)"
    and "int ((c + 1) mod C) = wrapIdx (int C) (int c) 1"
proof -
  from assms have "int (c + C - 1) = int c + - 1 + int C" by simp
  then show "int ((c + C - 1) mod C) = wrapIdx (int C) (int c) (-1)"
    by (simp add: wrapIdx_def zmod_int)
  show "int ((c + 1) mod C) = wrapIdx (int C) (int c) 1"
    by (simp add: wrapIdx_def zmod_int add.commute)
qed

lemma count_product:
  "int (length (filter (\<lambda>(r, c). A r \<and> B c) (map (\<lambda>(i, j). (wr i, wc j)) mooreOffsets))) =
     (of_bool (A (wr (-1))) + of_bool (A (wr 0)) + of_bool (A (wr 1))) *
     (of_bool (B (wc (-1))) + of_bool (B (wc 0)) + of_bool (B (wc 1))) -
     of_bool (A (wr 0) \<and> B (wc 0))"
  by (cases "A (wr (-1))"; cases "A (wr 0)"; cases "A (wr 1)";
      cases "B (wc (-1))"; cases "B (wc 0)"; cases "B (wc 1)")
    (simp_all add: mooreOffsets_def)

lemma neighborCells_in_range:
  assumes "0 < rows s" "0 < cols s" "(r, c) \<in> set (neighborCells s x y)"
  shows "0 \<le> r \<and> r < int (rows s) \<and> 0 \<le> c \<and> c < int (cols s)"
  using assms by (auto simp: neighborCells_def wrapIdx_def)

lemma neighborCount_rect:
  assumes live: "\<And>r c. 0 \<le> r \<Longrightarrow> r < int (rows s) \<Longrightarrow> 0 \<le> c \<Longrightarrow> c < int (cols s) \<Longrightarrow>
                   liveAt s r c = (A r \<and> B c)"
    and x: "0 \<le> x" "x < int (rows s)" and y: "0 \<le> y" "y < int (cols s)"
  shows "neighborCountSpec s x y =
     (of_bool (A (wrapIdx (int (rows s)) x (-1))) + of_bool (A (wrapIdx (int (rows s)) x 0)) +
      of_bool (A (wrapIdx (int (rows s)) x 1))) *
     (of_bool (B (wrapIdx (int (cols s)) y (-1))) + of_bool (B (wrapIdx (int (cols s)) y 0)) +
      of_bool (B (wrapIdx (int (cols s)) y 1))) -
     of_bool (A x \<and> B y)"
proof -
  from x y have pos: "0 < rows s" "0 < cols s" by auto
  have same: "wrapIdx (int (rows s)) x 0 = x" "wrapIdx (int (cols s)) y 0 = y"
    using wrapIdx_cases(2) x y by auto
  have "filter (\<lambda>(r, c). liveAt s r c) (neighborCells s x y) =
        filter (\<lambda>(r, c). A r \<and> B c) (neighborCells s x y)"
    by (rule filter_cong) (use neighborCells_in_range [OF pos] live in auto)
  then have "neighborCountSpec s x y =
      int (length (filter (\<lambda>(r, c). A r \<and> B c)
        (map (\<lambda>(i, j). (wrapIdx (int (rows s)) x i, wrapIdx (int (cols s)) y j)) mooreOffsets)))"
    unfolding neighborCountSpec_def neighborCells_def by (rule arg_cong)
  also have "\<dots> =
     (of_bool (A (wrapIdx (int (rows s)) x (-1))) + of_bool (A (wrapIdx (int (rows s)) x 0)) +
      of_bool (A (wrapIdx (int (rows s)) x 1))) *
     (of_bool (B (wrapIdx (int (cols s)) y (-1))) + of_bool (B (wrapIdx (int (cols s)) y 0)) +
      of_bool (B (wrapIdx (int (cols s)) y 1))) -
     of_bool (A (wrapIdx (int (rows s)) x 0) \<and> B (wrapIdx (int (cols s)) y 0))"
    by (rule count_product)
  finally show ?thesis by (simp only: same)
qed

lemma liveAt_pattern:
  assumes "grid s = patternGrid (rows s) (cols s) f"
    and "0 \<le> r" "r < int (rows s)" "0 \<le> c" "c < int (cols s)"
  shows "liveAt s r c = (0 < f (nat r) (nat c))"
  using assms by (simp add: liveAt_def patternGrid_def gtZero_def)

lemma cellValue_pattern:
  assumes "grid s = patternGrid (rows s) (cols s) f" "i < rows s" "j < cols s"
  shows "cellValue s i j = f i j"
  using assms by (simp add: cellValue_def patternGrid_def)

lemma nextGrid_pattern:
  assumes "\<And>i j. i < rows s \<Longrightarrow> j < cols s \<Longrightarrow>
             lifeRule (cellValue s i j) (neighborCountSpec s (int i) (int j)) = f i j"
  shows "nextGrid s = patternGrid (rows s) (cols s) f"
  using assms by (simp add: nextGrid_def patternGrid_def)

lemma wf_pattern:
  assumes "grid s = patternGrid (rows s) (cols s) f" "\<And>i j. 0 \<le> f i j"
  shows "wf_state s"
  using assms by (simp add: wf_state_def patternGrid_def list_all_iff isCount_def)

lemma bar_rule:
  fixes hs v :: int
  assumes hs: "(mid \<longrightarrow> hs = 3) \<and> (nearY \<and> \<not> mid \<longrightarrow> hs = 2) \<and>
               (\<not> nearY \<longrightarrow> 0 \<le> hs \<and> hs \<le> 2)"
    and v: "if onLine \<and> nearY then 0 < v else v = 0"
    and on: "onLine \<longrightarrow> nearX" "mid \<longrightarrow> nearY"
  shows "lifeRule v (of_bool nearX * hs - of_bool (onLine \<and> nearY)) =
           (if mid then (if onLine then 2 else if nearX then 3 else 0) else 0)"
proof (cases nearX)
  case False
  with v on show ?thesis by (auto simp: lifeRule_def)
next
  case nx: True
  consider mid | "nearY" "\<not> mid" | "\<not> nearY" by blast
  then show ?thesis
  proof cases
    case 1
    with hs on have "hs = 3" nearY by simp_all
    with 1 nx v show ?thesis by (cases onLine) (auto simp: lifeRule_def)
  next
    case 2
    with hs have "hs = 2" by simp
    with 2 nx v show ?thesis by (cases onLine) (auto simp: lifeRule_def)
  next
    case 3
    with hs have "0 \<le> hs" "hs \<le> 2" by simp_all
    moreover from 3 v have "v = 0" by auto
    moreover from 3 on have "\<not> mid" by blast
    ultimately show ?thesis using 3 nx by (auto simp: lifeRule_def)
  qed
qed

lemma near_self: "near N x x"
  by (simp add: near_def)

lemma horizontal_live:
  assumes live: "0 < a" "0 < b" "0 < d" and c: "c < C"
  shows "if int i = int r \<and> near (int C) (int j) (int c) then 0 < horizontal C r c a b d i j
         else horizontal C r c a b d i j = 0"
proof -
  have "near (int C) (int j) (int c) \<longleftrightarrow> j = (c + C - 1) mod C \<or> j = c \<or> j = (c + 1) mod C"
    unfolding near_def wrapIdx_nat [OF c, symmetric] by simp
  then show ?thesis using live by (auto simp: horizontal_def)
qed

lemma vertical_live:
  assumes live: "0 < a" "0 < b" "0 < d" and r: "r < R"
  shows "if int j = int c \<and> near (int R) (int i) (int r) then 0 < vertical R r c a b d i j
         else vertical R r c a b d i j = 0"
proof -
  have "near (int R) (int i) (int r) \<longleftrightarrow> i = (r + R - 1) mod R \<or> i = r \<or> i = (r + 1) mod R"
    unfolding near_def wrapIdx_nat [OF r, symmetric] by simp
  then show ?thesis using live by (auto simp: vertical_def)
qed

lemma prev_not_self:
  fixes r R :: nat
  assumes "r < R" "2 \<le> R"
  shows "(r + R - 1) mod R \<noteq> r"
proof
  assume "(r + R - 1) mod R = r"
  then have "int ((r + R - 1) mod R) = int r" by simp
  then have "wrapIdx (int R) (int r) (-1) = int r"
    using wrapIdx_nat(1) [OF assms(1)] by simp
  then show False
    using wrapIdx_cases(1) [of "int r" "int R"] assms by (auto split: if_splits)
qed

lemma vertical_323:
  assumes "r < R" "2 \<le> R"
  shows "vertical R r c 3 2 3 i j =
     (if int j = int c then
        (if int i = int r then 2 else if near (int R) (int i) (int r) then 3 else 0)
      else 0)"
proof -
  have "near (int R) (int i) (int r) \<longleftrightarrow> i = (r + R - 1) mod R \<or> i = r \<or> i = (r + 1) mod R"
    unfolding near_def wrapIdx_nat [OF assms(1), symmetric] by simp
  then show ?thesis using prev_not_self [OF assms] by (auto simp: vertical_def)
qed

lemma horizontal_323:
  assumes "c < C" "2 \<le> C"
  shows "horizontal C r c 3 2 3 i j =
     (if int i = int r then
        (if int j = int c then 2 else if near (int C) (int j) (int c) then 3 else 0)
      else 0)"
proof -
  have "near (int C) (int j) (int c) \<longleftrightarrow> j = (c + C - 1) mod C \<or> j = c \<or> j = (c + 1) mod C"
    unfolding near_def wrapIdx_nat [OF assms(1), symmetric] by simp
  then show ?thesis using prev_not_self [OF assms] by (auto simp: horizontal_def)
qed

lemma next_horizontal:
  assumes g: "grid s = patternGrid (rows s) (cols s) (horizontal (cols s) r c a b d)"
    and live: "0 < a" "0 < b" "0 < d"
    and big: "4 \<le> rows s" "4 \<le> cols s"
    and pos: "r < rows s" "c < cols s"
  shows "nextGrid s = patternGrid (rows s) (cols s) (vertical (rows s) r c 3 2 3)"
proof (rule nextGrid_pattern)
  fix i j assume i: "i < rows s" and j: "j < cols s"
  let ?R = "int (rows s)" and ?C = "int (cols s)"
  let ?A = "\<lambda>x. x = int r" and ?B = "\<lambda>y. near ?C y (int c)"
  define hp :: int where "hp = of_bool (?A (wrapIdx ?R (int i) (-1))) + of_bool (?A (wrapIdx ?R (int i) 0)) +
      of_bool (?A (wrapIdx ?R (int i) 1))"
  define hs :: int where "hs = of_bool (?B (wrapIdx ?C (int j) (-1))) + of_bool (?B (wrapIdx ?C (int j) 0)) +
      of_bool (?B (wrapIdx ?C (int j) 1))"
  have lv: "liveAt s x y = (?A x \<and> ?B y)"
    if "0 \<le> x" "x < ?R" "0 \<le> y" "y < ?C" for x y
  proof -
    have "liveAt s x y = (0 < horizontal (cols s) r c a b d (nat x) (nat y))"
      by (rule liveAt_pattern [OF g that])
    also have "\<dots> = (?A x \<and> ?B y)"
      using horizontal_live [OF live pos(2), of "nat x" r "nat y"] that
      by (simp split: if_splits)
    finally show ?thesis .
  qed
  have cnt: "neighborCountSpec s (int i) (int j) = hp * hs - of_bool (?A (int i) \<and> ?B (int j))"
    unfolding hp_def hs_def
    by (rule neighborCount_rect [where A = ?A and B = ?B]) (use lv i j in auto)
  have hp: "hp = of_bool (near ?R (int i) (int r))"
    unfolding hp_def using hits_point [of "int i" ?R "int r"] i pos big by simp
  have hs: "(int j = int c \<longrightarrow> hs = 3) \<and> (near ?C (int j) (int c) \<and> int j \<noteq> int c \<longrightarrow> hs = 2) \<and>
            (\<not> near ?C (int j) (int c) \<longrightarrow> 0 \<le> hs \<and> hs \<le> 2)"
    by (rule hits_segment [where N = ?C]) (use j pos big hs_def in auto)
  have cv: "cellValue s i j = horizontal (cols s) r c a b d i j"
    by (rule cellValue_pattern [OF g i j])
  have two: "2 \<le> rows s" using big by simp
  show "lifeRule (cellValue s i j) (neighborCountSpec s (int i) (int j)) =
          vertical (rows s) r c 3 2 3 i j"
    unfolding cv cnt hp vertical_323 [OF pos(1) two]
    by (rule bar_rule [OF hs horizontal_live [OF live pos(2)]]) (auto simp: near_self)
qed

lemma next_vertical:
  assumes g: "grid s = patternGrid (rows s) (cols s) (vertical (rows s) r c a b d)"
    and live: "0 < a" "0 < b" "0 < d"
    and big: "4 \<le> rows s" "4 \<le> cols s"
    and pos: "r < rows s" "c < cols s"
  shows "nextGrid s = patternGrid (rows s) (cols s) (horizontal (cols s) r c 3 2 3)"
proof (rule nextGrid_pattern)
  fix i j assume i: "i < rows s" and j: "j < cols s"
  let ?R = "int (rows s)" and ?C = "int (cols s)"
  let ?A = "\<lambda>x. near ?R x (int r)" and ?B = "\<lambda>y. y = int c"
  define hs :: int where "hs = of_bool (?A (wrapIdx ?R (int i) (-1))) + of_bool (?A (wrapIdx ?R (int i) 0)) +
      of_bool (?A (wrapIdx ?R (int i) 1))"
  define hp :: int where "hp = of_bool (?B (wrapIdx ?C (int j) (-1))) + of_bool (?B (wrapIdx ?C (int j) 0)) +
      of_bool (?B (wrapIdx ?C (int j) 1))"
  have lv: "liveAt s x y = (?A x \<and> ?B y)"
    if "0 \<le> x" "x < ?R" "0 \<le> y" "y < ?C" for x y
  proof -
    have "liveAt s x y = (0 < vertical (rows s) r c a b d (nat x) (nat y))"
      by (rule liveAt_pattern [OF g that])
    also have "\<dots> = (?A x \<and> ?B y)"
      using vertical_live [OF live pos(1), of "nat y" c "nat x"] that
      by (auto split: if_splits)
    finally show ?thesis .
  qed
  have cnt: "neighborCountSpec s (int i) (int j) = hs * hp - of_bool (?A (int i) \<and> ?B (int j))"
    unfolding hp_def hs_def
    by (rule neighborCount_rect [where A = ?A and B = ?B]) (use lv i j in auto)
  have hp: "hp = of_bool (near ?C (int j) (int c))"
    unfolding hp_def using hits_point [of "int j" ?C "int c"] j pos big by simp
  have hs: "(int i = int r \<longrightarrow> hs = 3) \<and> (near ?R (int i) (int r) \<and> int i \<noteq> int r \<longrightarrow> hs = 2) \<and>
            (\<not> near ?R (int i) (int r) \<longrightarrow> 0 \<le> hs \<and> hs \<le> 2)"
    by (rule hits_segment [where N = ?R]) (use i pos big hs_def in auto)
  have cv: "cellValue s i j = vertical (rows s) r c a b d i j"
    by (rule cellValue_pattern [OF g i j])
  have sw: "hs * hp - of_bool (?A (int i) \<and> ?B (int j)) =
            of_bool (near ?C (int j) (int c)) * hs - of_bool (int j = int c \<and> near ?R (int i) (int r))"
    unfolding hp by (simp add: conj_commute mult.commute)
  have two: "2 \<le> cols s" using big by simp
  show "lifeRule (cellValue s i j) (neighborCountSpec s (int i) (int j)) =
          horizontal (cols s) r c 3 2 3 i j"
    unfolding cv cnt sw horizontal_323 [OF pos(2) two]
    by (rule bar_rule [OF hs vertical_live [OF live pos(1)]]) (auto simp: near_self)
qed

lemma grid_update_same: "(s\<lparr>grid := g\<rparr> = s) = (g = grid s)"
  by (cases s) auto

lemma patternGrid_nth:
  "i < R \<Longrightarrow> j < C \<Longrightarrow> patternGrid R C f ! i ! j = Num (f i j)"
  by (simp add: patternGrid_def)

lemma ends_distinct:
  fixes c C :: nat
  assumes "c < C" "3 \<le> C"
  shows "(c + C - 1) mod C \<noteq> c" "(c + 1) mod C \<noteq> c" "(c + 1) mod C \<noteq> (c + C - 1) mod C"
    "(c + C - 1) mod C < C" "(c + 1) mod C < C"
proof -
  have i: "int ((c + C - 1) mod C) = wrapIdx (int C) (int c) (-1)"
    "int ((c + 1) mod C) = wrapIdx (int C) (int c) 1"
    using wrapIdx_nat [OF assms(1)] by simp_all
  have w: "wrapIdx (int C) (int c) (-1) \<noteq> int c" "wrapIdx (int C) (int c) 1 \<noteq> int c"
    "wrapIdx (int C) (int c) 1 \<noteq> wrapIdx (int C) (int c) (-1)"
    using wrapIdx_cases [of "int c" "int C"] assms by (auto split: if_splits)
  from w(1) i(1) show "(c + C - 1) mod C \<noteq> c" by (metis)
  from w(2) i(2) show "(c + 1) mod C \<noteq> c" by (metis)
  from w(3) i show "(c + 1) mod C \<noteq> (c + C - 1) mod C" by (metis)
  from assms show "(c + C - 1) mod C < C" "(c + 1) mod C < C" by simp_all
qed

lemma horizontal_values:
  assumes "c < C" "3 \<le> C"
  shows "horizontal C r c a b d r ((c + C - 1) mod C) = a" "horizontal C r c a b d r c = b"
    "horizontal C r c a b d r ((c + 1) mod C) = d"
  using ends_distinct [OF assms] by (simp_all add: horizontal_def)

lemma horizontal_pattern_eq:
  assumes pos: "r < R" "c < C" "3 \<le> C"
  shows "patternGrid R C (horizontal C r c a' b' d') = patternGrid R C (horizontal C r c a b d)
           \<longleftrightarrow> a' = a \<and> b' = b \<and> d' = d"
proof
  assume eq: "patternGrid R C (horizontal C r c a' b' d') = patternGrid R C (horizontal C r c a b d)"
  have cell: "horizontal C r c a' b' d' r j = horizontal C r c a b d r j" if "j < C" for j
    using arg_cong [OF eq, of "\<lambda>g. g ! r ! j"] pos(1) that by (simp add: patternGrid_nth)
  from cell [OF ends_distinct(4) [OF pos(2,3)]] cell [OF pos(2)] cell [OF ends_distinct(5) [OF pos(2,3)]]
  show "a' = a \<and> b' = b \<and> d' = d"
    unfolding horizontal_values [OF pos(2,3)] by simp
qed simp

text \<open>Claim C10, amended. On a grid of at least 4 rows and 4 columns, with three live cells in a
  row, around any cell \<open>(r, c)\<close> of the torus, one generation gives the three cells of column \<open>c\<close>
  around row \<open>r\<close> holding 3, 2, 3, and the next gives the row again, holding 3, 2, 3. After two
  generations the same cells are alive as at the start, and the state equals the starting state
  exactly when the row held 3, 2, 3 at the start.\<close>

theorem blinker_oscillates:
  assumes big: "4 \<le> rows s" "4 \<le> cols s"
    and pos: "r < rows s" "c < cols s"
    and live: "0 < a" "0 < b" "0 < d"
    and g: "grid s = patternGrid (rows s) (cols s) (horizontal (cols s) r c a b d)"
  shows "computeNextGeneration s =
           Inr (s\<lparr>grid := patternGrid (rows s) (cols s) (vertical (rows s) r c 3 2 3)\<rparr>) \<and>
         computeNextGeneration (s\<lparr>grid := patternGrid (rows s) (cols s) (vertical (rows s) r c 3 2 3)\<rparr>) =
           Inr (s\<lparr>grid := patternGrid (rows s) (cols s) (horizontal (cols s) r c 3 2 3)\<rparr>) \<and>
         twoGenerations s =
           Inr (s\<lparr>grid := patternGrid (rows s) (cols s) (horizontal (cols s) r c 3 2 3)\<rparr>) \<and>
         (\<forall>i j. (0 < horizontal (cols s) r c 3 2 3 i j) = (0 < horizontal (cols s) r c a b d i j)) \<and>
         (twoGenerations s = Inr s \<longleftrightarrow> a = 3 \<and> b = 2 \<and> d = 3)"
proof -
  let ?v = "s\<lparr>grid := patternGrid (rows s) (cols s) (vertical (rows s) r c 3 2 3)\<rparr>"
  let ?h = "s\<lparr>grid := patternGrid (rows s) (cols s) (horizontal (cols s) r c 3 2 3)\<rparr>"
  have nn: "0 \<le> horizontal (cols s) r c a b d i j" for i j
    using live by (simp add: horizontal_def)
  have wf: "wf_state s" by (rule wf_pattern [OF g nn])
  have g1: "computeNextGeneration s = Inr ?v"
    using computeNextGeneration_nextGrid [OF wf] next_horizontal [OF g live big pos] by simp
  have gv: "grid ?v = patternGrid (rows ?v) (cols ?v) (vertical (rows ?v) r c 3 2 3)" by simp
  have wfv: "wf_state ?v"
    by (rule wf_pattern [OF gv]) (simp add: vertical_def)
  have "nextGrid ?v = patternGrid (rows ?v) (cols ?v) (horizontal (cols ?v) r c 3 2 3)"
    by (rule next_vertical [OF gv]) (use big pos in simp_all)
  then have g2: "computeNextGeneration ?v = Inr ?h"
    using computeNextGeneration_nextGrid [OF wfv] by simp
  from g1 g2 have two: "twoGenerations s = Inr ?h" by (simp add: twoGenerations_def)
  have same: "(0 < horizontal (cols s) r c 3 2 3 i j) = (0 < horizontal (cols s) r c a b d i j)" for i j
    using live by (simp add: horizontal_def)
  have "3 \<le> cols s" using big by simp
  then have "(?h = s) = (a = 3 \<and> b = 2 \<and> d = 3)"
    unfolding grid_update_same g
    using horizontal_pattern_eq [of r "rows s" c "cols s" 3 2 3 a b d] pos by auto
  with g1 g2 two same show ?thesis by simp
qed

theorem blinker_oscillates_witness:
  "twoGenerations blinkerState =
     Inr (blinkerState\<lparr>grid := [[Num 0, Num 0, Num 0, Num 0, Num 0],
                                [Num 0, Num 0, Num 0, Num 0, Num 0],
                                [Num 0, Num 3, Num 2, Num 3, Num 0],
                                [Num 0, Num 0, Num 0, Num 0, Num 0],
                                [Num 0, Num 0, Num 0, Num 0, Num 0]]\<rparr>) \<and>
   computeNextGeneration edgeState =
     Inr (edgeState\<lparr>grid := [[Num 0, Num 0, Num 2, Num 0, Num 0],
                             [Num 0, Num 0, Num 3, Num 0, Num 0],
                             [Num 0, Num 0, Num 0, Num 0, Num 0],
                             [Num 0, Num 0, Num 0, Num 0, Num 0],
                             [Num 0, Num 0, Num 3, Num 0, Num 0]]\<rparr>) \<and>
   twoGenerations edgeState = Inr edgeState \<and>
   twoGenerations seamState = Inr seamState"
proof -
  have d: "rows blinkerState = 5" "cols blinkerState = 5" "rows edgeState = 5" "cols edgeState = 5"
    "rows seamState = 5" "cols seamState = 5"
    by (simp_all add: blinkerState_def edgeState_def seamState_def)
  have gb: "grid blinkerState =
      patternGrid (rows blinkerState) (cols blinkerState) (horizontal (cols blinkerState) 2 2 3 3 3)"
    by code_simp
  have ge: "grid edgeState =
      patternGrid (rows edgeState) (cols edgeState) (horizontal (cols edgeState) 0 2 3 2 3)"
    by code_simp
  have gs: "grid seamState =
      patternGrid (rows seamState) (cols seamState) (horizontal (cols seamState) 2 0 3 2 3)"
    by code_simp
  have p: "patternGrid 5 5 (horizontal 5 2 2 3 2 3) =
             [[Num 0, Num 0, Num 0, Num 0, Num 0],
              [Num 0, Num 0, Num 0, Num 0, Num 0],
              [Num 0, Num 3, Num 2, Num 3, Num 0],
              [Num 0, Num 0, Num 0, Num 0, Num 0],
              [Num 0, Num 0, Num 0, Num 0, Num 0]]"
    by code_simp
  have q: "patternGrid 5 5 (vertical 5 0 2 3 2 3) =
             [[Num 0, Num 0, Num 2, Num 0, Num 0],
              [Num 0, Num 0, Num 3, Num 0, Num 0],
              [Num 0, Num 0, Num 0, Num 0, Num 0],
              [Num 0, Num 0, Num 0, Num 0, Num 0],
              [Num 0, Num 0, Num 3, Num 0, Num 0]]"
    by code_simp
  have l: "(0::int) < 3" "(0::int) < 2" by simp_all
  have pb: "4 \<le> rows blinkerState" "4 \<le> cols blinkerState" "2 < rows blinkerState"
    "2 < cols blinkerState"
    and pe: "4 \<le> rows edgeState" "4 \<le> cols edgeState" "0 < rows edgeState"
    "2 < cols edgeState"
    and ps: "4 \<le> rows seamState" "4 \<le> cols seamState" "2 < rows seamState"
    "0 < cols seamState"
    by (simp_all add: d)
  note B = blinker_oscillates [OF pb l(1) l(1) l(1) gb]
    and E = blinker_oscillates [OF pe l(1) l(2) l(1) ge]
    and S = blinker_oscillates [OF ps l(1) l(2) l(1) gs]
  from B have 1: "twoGenerations blinkerState =
          Inr (blinkerState\<lparr>grid := patternGrid 5 5 (horizontal 5 2 2 3 2 3)\<rparr>)"
    unfolding d by blast
  from E have 2: "computeNextGeneration edgeState =
             Inr (edgeState\<lparr>grid := patternGrid 5 5 (vertical 5 0 2 3 2 3)\<rparr>)"
    unfolding d by blast
  from E have 3: "twoGenerations edgeState = Inr edgeState" by blast
  from S have 4: "twoGenerations seamState = Inr seamState" by blast
  from 1 2 3 4 show ?thesis unfolding p q by blast
qed

text \<open>Claim C10, as stated, fails for a row of three cells that were toggled alive and so all
  hold 3: after two generations the same three cells are alive, but the centre holds 2, and the
  state is not the original one.\<close>

theorem blinker_values_counterexample:
  "grid blinkerState ! 2 ! 2 = Num 3 \<and>
   twoGenerations blinkerState =
     Inr (blinkerState\<lparr>grid := [[Num 0, Num 0, Num 0, Num 0, Num 0],
                                [Num 0, Num 0, Num 0, Num 0, Num 0],
                                [Num 0, Num 3, Num 2, Num 3, Num 0],
                                [Num 0, Num 0, Num 0, Num 0, Num 0],
                                [Num 0, Num 0, Num 0, Num 0, Num 0]]\<rparr>) \<and>
   twoGenerations blinkerState \<noteq> Inr blinkerState"
proof -
  have "twoGenerations blinkerState =
     Inr (blinkerState\<lparr>grid := [[Num 0, Num 0, Num 0, Num 0, Num 0],
                                [Num 0, Num 0, Num 0, Num 0, Num 0],
                                [Num 0, Num 3, Num 2, Num 3, Num 0],
                                [Num 0, Num 0, Num 0, Num 0, Num 0],
                                [Num 0, Num 0, Num 0, Num 0, Num 0]]\<rparr>)"
    by code_simp
  then show ?thesis by (simp add: blinkerState_def)
qed

end
